theory Spec2Isabelle
  imports Complex_Main "HOL-Library.Multiset"
begin

section \<open>The capture scheduler of timesnap (src/index.js)\<close>

text \<open>
  The exported function of \<^verbatim>\<open>src/index.js\<close> resolves the frame count and the frame
  rate from the configuration, brings up a page, primes the virtual clock, builds a list
  of markers, sorts it and executes it marker by marker.

  JavaScript numbers are modelled as exact rationals (\<^typ>\<open>rat\<close>): the arithmetic of the
  source is kept operation by operation, the rounding of IEEE doubles and the values NaN
  and Infinity are outside the model. An option of the configuration that is absent
  (\<^verbatim>\<open>undefined\<close>) is \<^const>\<open>None\<close>.
\<close>

subsection \<open>Configuration\<close>

record config =
  frames :: "rat option"
  duration :: "rat option"
  fps :: "rat option"
  frameNumToTime :: "(rat \<Rightarrow> rat \<Rightarrow> rat) option"
  start :: "rat option"
  startDelay :: "rat option"
  maximumAnimationFrameDuration :: "rat option"
  captureWhileSelectorExists :: "string option"
  canvasCaptureMode :: "string option"
  viewport :: bool
  preparePage :: bool
  preparePageForScreenshot :: bool
  quiet :: bool
  logToStdErr :: bool

text \<open>
  The fields \<^const>\<open>viewport\<close>, \<^const>\<open>preparePage\<close> and \<^const>\<open>preparePageForScreenshot\<close>
  only record whether the option is present: the viewport object and the caller's hooks
  are opaque to the scheduler.

  JavaScript truthiness of an optional number: \<^verbatim>\<open>undefined\<close> and \<^verbatim>\<open>0\<close> are falsy.
  \<open>num\<close> reads the number, with \<^verbatim>\<open>undefined\<close> read as 0 (which is \<^verbatim>\<open>x || 0\<close>).
  For an optional string, \<^verbatim>\<open>undefined\<close> and the empty string are falsy.
\<close>

definition truthy :: "rat option \<Rightarrow> bool" where
  "truthy v = (case v of None \<Rightarrow> False | Some x \<Rightarrow> x \<noteq> 0)"

definition num :: "rat option \<Rightarrow> rat" where
  "num v = (case v of None \<Rightarrow> 0 | Some x \<Rightarrow> x)"

definition truthyStr :: "string option \<Rightarrow> bool" where
  "truthyStr v = (case v of None \<Rightarrow> False | Some s \<Rightarrow> s \<noteq> [])"

definition defaultDuration :: rat where
  "defaultDuration = 5"

definition defaultFPS :: rat where
  "defaultFPS = 60"

definition delayMs :: "config \<Rightarrow> rat" where
  "delayMs config = 1000 * num (start config)"

definition startWaitMs :: "config \<Rightarrow> rat" where
  "startWaitMs config = 1000 * num (startDelay config)"

text \<open>Lines 61 to 79: the value of the variable \<^verbatim>\<open>fps\<close> after the resolution.\<close>

definition resolvedFps :: "config \<Rightarrow> rat" where
  "resolvedFps config =
     (if truthy (frames config) then
        (if \<not> truthy (fps config) then
           (if truthy (duration config) then num (frames config) / num (duration config)
            else defaultFPS)
         else num (fps config))
      else
        (if \<not> truthy (fps config) then defaultFPS else num (fps config)))"

text \<open>Lines 61 to 79: the value of the variable \<^verbatim>\<open>framesToCapture\<close>.\<close>

definition framesToCapture :: "config \<Rightarrow> rat" where
  "framesToCapture config =
     (if truthy (frames config) then num (frames config)
      else if truthy (duration config) then num (duration config) * resolvedFps config
      else defaultDuration * resolvedFps config)"

definition frameDuration :: "config \<Rightarrow> rat" where
  "frameDuration config = 1000 / resolvedFps config"

text \<open>Lines 83 to 87: a function given by the caller is kept, else the default is installed.\<close>

definition resolvedFrameNumToTime :: "config \<Rightarrow> rat \<Rightarrow> rat \<Rightarrow> rat" where
  "resolvedFrameNumToTime config =
     (case frameNumToTime config of
        Some f \<Rightarrow> f
      | None \<Rightarrow> (\<lambda>frameCount total. (frameCount - 1) * frameDuration config))"

subsection \<open>Markers\<close>

datatype markerType = Capture | OnlyAnimate

record marker =
  mtime :: rat
  mtype :: markerType
  mdata :: "int option"
  mid :: nat

text \<open>
  \<open>mdata\<close> is the \<^verbatim>\<open>frameCount\<close> of \<^verbatim>\<open>data\<close>, absent for the markers pushed without
  \<^verbatim>\<open>data\<close>. The closure \<^verbatim>\<open>addMarker\<close> mutates the array \<^verbatim>\<open>markers\<close> and the counter
  \<^verbatim>\<open>markerId\<close>; both are threaded through as a record.
\<close>

record builder =
  markers :: "marker list"
  markerId :: nat

definition addMarker :: "rat \<times> markerType \<times> int option \<Rightarrow> builder \<Rightarrow> builder" where
  "addMarker spec st =
     (case spec of (t, ty, d) \<Rightarrow>
        \<lparr>markers = markers st @ [\<lparr>mtime = t, mtype = ty, mdata = d, mid = markerId st\<rparr>],
         markerId = markerId st + 1\<rparr>)"

text \<open>Lines 207 to 215: the loop \<^verbatim>\<open>for (let i = 1; i <= framesToCapture; i++)\<close>.\<close>

function captureLoop ::
  "config \<Rightarrow> rat \<Rightarrow> int \<Rightarrow> builder \<times> rat list \<Rightarrow> builder \<times> rat list" where
  "captureLoop config browserTime i acc =
     (if of_int i \<le> framesToCapture config then
        captureLoop config browserTime (i + 1)
          (addMarker
             (delayMs config + browserTime
                + resolvedFrameNumToTime config (of_int i) (framesToCapture config),
              Capture, Some i) (fst acc),
           snd acc @ [delayMs config
                + resolvedFrameNumToTime config (of_int i) (framesToCapture config)])
      else acc)"
  by pat_completeness auto
termination
  by (relation "measure (\<lambda>(config, browserTime, i, acc).
        nat (\<lfloor>framesToCapture config\<rfloor> + 1 - i))") (auto simp: le_floor_iff)

declare captureLoop.simps [simp del]

definition addAnimationGapThreshold :: rat where
  "addAnimationGapThreshold = 100"

definition addAnimationFrameTime :: rat where
  "addAnimationFrameTime = 20"

text \<open>Lines 217 to 226.\<close>

definition addEarlyAnimation :: "rat list \<Rightarrow> builder \<Rightarrow> builder" where
  "addEarlyAnimation captureTimes st =
     (case captureTimes of
        [] \<Rightarrow> st
      | t # rest \<Rightarrow>
          if t > addAnimationGapThreshold
          then addMarker (addAnimationFrameTime, OnlyAnimate, None) st
          else st)"

text \<open>Lines 236 to 241: the loop \<^verbatim>\<open>for (let i = 1; i < framesForDuration; i++)\<close>.\<close>

function subdivideLoop :: "rat \<Rightarrow> rat \<Rightarrow> int \<Rightarrow> int \<Rightarrow> builder \<Rightarrow> builder" where
  "subdivideLoop lastMarkerTime gap framesForDuration i st =
     (if i < framesForDuration then
        subdivideLoop lastMarkerTime gap framesForDuration (i + 1)
          (addMarker
             (lastMarkerTime + (of_int i * gap) / of_int framesForDuration,
              OnlyAnimate, None) st)
      else st)"
  by pat_completeness auto
termination
  by (relation "measure (\<lambda>(lastMarkerTime, gap, framesForDuration, i, st).
        nat (framesForDuration - i))") auto

declare subdivideLoop.simps [simp del]

text \<open>
  Lines 228 to 244: \<^verbatim>\<open>captureTimes.forEach\<close>, with \<^verbatim>\<open>lastMarkerTime\<close> threaded through.
  The local \<^verbatim>\<open>frameDuration\<close> of the callback (the gap to the previous capture time)
  is called \<open>gap\<close> here.
\<close>

fun subdivide :: "rat option \<Rightarrow> rat \<Rightarrow> rat list \<Rightarrow> builder \<Rightarrow> builder" where
  "subdivide D lastMarkerTime [] st = st"
| "subdivide D lastMarkerTime (t # rest) st =
     subdivide D t rest
       (if truthy D then
          (let gap = t - lastMarkerTime;
               framesForDuration = \<lceil>gap / num D\<rceil>
           in subdivideLoop lastMarkerTime gap framesForDuration 1 st)
        else st)"

text \<open>Lines 207 to 244: the markers in creation order, and the array \<^verbatim>\<open>captureTimes\<close>.\<close>

definition captureTimesOf :: "config \<Rightarrow> rat \<Rightarrow> rat list" where
  "captureTimesOf config browserTime =
     snd (captureLoop config browserTime 1 (\<lparr>markers = [], markerId = 0\<rparr>, []))"

definition buildMarkers :: "config \<Rightarrow> rat \<Rightarrow> marker list" where
  "buildMarkers config browserTime =
     (let acc = captureLoop config browserTime 1 (\<lparr>markers = [], markerId = 0\<rparr>, []);
          st1 = addEarlyAnimation (snd acc) (fst acc);
          st2 = subdivide (maximumAnimationFrameDuration config) 0 (snd acc) st1
      in markers st2)"

text \<open>
  Lines 246 to 251. The comparator is the source's. For a consistent comparator the
  result of \<^verbatim>\<open>Array.prototype.sort\<close> is the sorted permutation, whatever algorithm the
  engine uses; insertion by the comparator computes it.
\<close>

definition compareMarkers :: "marker \<Rightarrow> marker \<Rightarrow> rat" where
  "compareMarkers a b =
     (if mtime a \<noteq> mtime b then mtime a - mtime b
      else of_nat (mid a) - of_nat (mid b))"

fun insertMarker :: "marker \<Rightarrow> marker list \<Rightarrow> marker list" where
  "insertMarker m [] = [m]"
| "insertMarker m (x # xs) =
     (if compareMarkers m x \<le> 0 then m # x # xs else x # insertMarker m xs)"

definition sortMarkers :: "marker list \<Rightarrow> marker list" where
  "sortMarkers ms = foldr insertMarker ms []"

definition timeline :: "config \<Rightarrow> rat \<Rightarrow> marker list" where
  "timeline config browserTime = sortMarkers (buildMarkers config browserTime)"

subsection \<open>The page and the run\<close>

text \<open>
  Everything the scheduler asks of the browser, the page, the time handler, the capturer
  and the caller's hooks is recorded as an event, in the order of the calls.
  \<open>Query found\<close> is one call of \<^verbatim>\<open>page.$\<close> with the configured selector and its answer.
  The four ways of \<^verbatim>\<open>getBrowser\<close> are one event, the navigation target is not
  modelled, and the reads of \<^verbatim>\<open>page.viewport()\<close> are part of \<open>SetViewport\<close>.
\<close>

datatype captureMode = ImmediateCanvas | Canvas | Screenshot

datatype event =
    GetBrowser
  | NewPage
  | InitCapturer captureMode
  | SetViewport
  | OverwriteRandom
  | OverwriteTime
  | InitializePageUtils
  | InitializeMediaTimeHandler
  | Goto
  | PreparePage
  | Wait rat
  | BeforeCapture
  | GetBrowserFrames
  | Query bool
  | GoToTimeAndAnimate rat
  | GoToTimeAndAnimateForCapture rat
  | PreparePageForScreenshot int rat
  | CaptureFrame int rat
  | AfterCapture
  | BrowserClose

datatype error = HostError event | TypeError

datatype message =
    CaptureModeMsg captureMode
  | GoingTo
  | PageLoaded
  | PreparingPage
  | PagePrepared
  | PreparingPageForScreenshot
  | ElapsedCaptureTime
  | ErrorMsg error

datatype channel = StdOut | StdErr

record world =
  events :: "event list"
  console :: "(channel \<times> message) list"

text \<open>
  The capturer and the time handler come from modules that are not in this file of the
  repository; what the scheduler uses of a capturer is which of its three hooks exist.
\<close>

record capturer =
  hasBeforeCapture :: bool
  hasCapture :: bool
  hasAfterCapture :: bool

text \<open>
  The environment of a run: the answer of the k-th call of \<^verbatim>\<open>page.$\<close> (counted from 0),
  whether the call made after k recorded events throws, and the capturer of each mode.
\<close>

record env =
  selectorFound :: "nat \<Rightarrow> bool"
  throws :: "nat \<Rightarrow> bool"
  capturerOf :: "captureMode \<Rightarrow> capturer"

type_synonym step = "world \<Rightarrow> (error \<times> world) + world"

fun isQuery :: "event \<Rightarrow> bool" where
  "isQuery (Query b) = True"
| "isQuery e = False"

definition queriesMade :: "world \<Rightarrow> nat" where
  "queriesMade w = length (filter isQuery (events w))"

definition answer :: "env \<Rightarrow> world \<Rightarrow> bool" where
  "answer env w = selectorFound env (queriesMade w)"

definition record_event :: "event \<Rightarrow> world \<Rightarrow> world" where
  "record_event ev w = w\<lparr>events := events w @ [ev]\<rparr>"

text \<open>An awaited call that may throw; a call that throws leaves no event.\<close>

definition host :: "env \<Rightarrow> event \<Rightarrow> step" where
  "host env ev w =
     (if throws env (length (events w)) then Inl (HostError ev, w)
      else Inr (record_event ev w))"

text \<open>The wait on \<^verbatim>\<open>setTimeout\<close> (lines 188 to 190) cannot throw.\<close>

definition emit :: "event \<Rightarrow> step" where
  "emit ev w = Inr (record_event ev w)"

text \<open>Lines 89 to 99.\<close>

definition log_msg :: "config \<Rightarrow> message \<Rightarrow> world \<Rightarrow> world" where
  "log_msg config m w =
     (if \<not> quiet config then
        (if logToStdErr config then w\<lparr>console := console w @ [(StdErr, m)]\<rparr>
         else w\<lparr>console := console w @ [(StdOut, m)]\<rparr>)
      else w)"

definition logStep :: "config \<Rightarrow> message \<Rightarrow> step" where
  "logStep config m w = Inr (log_msg config m w)"

definition andThen :: "step \<Rightarrow> step \<Rightarrow> step" where
  "andThen f g w = (case f w of Inl e \<Rightarrow> Inl e | Inr w' \<Rightarrow> g w')"

definition skip :: step where
  "skip w = Inr w"

definition onlyIf :: "bool \<Rightarrow> step \<Rightarrow> step" where
  "onlyIf c f = (if c then f else skip)"

fun seq :: "step list \<Rightarrow> step" where
  "seq [] = skip"
| "seq (f # fs) = andThen f (seq fs)"

text \<open>Lines 143 to 166: the choice of the capture mode.\<close>

definition startsWithImmediate :: "string \<Rightarrow> bool" where
  "startsWithImmediate s = (take 9 s = ''immediate'')"

definition captureModeOf :: "config \<Rightarrow> captureMode" where
  "captureModeOf config =
     (if truthyStr (canvasCaptureMode config) then
        (case canvasCaptureMode config of
           Some s \<Rightarrow> if startsWithImmediate s then ImmediateCanvas else Canvas
         | None \<Rightarrow> Canvas)
      else Screenshot)"

text \<open>Lines 125 to 196: from the browser to the frames of the page.\<close>

definition initialize :: "config \<Rightarrow> env \<Rightarrow> step" where
  "initialize config env =
     seq [host env GetBrowser,
          host env NewPage,
          host env (InitCapturer (captureModeOf config)),
          logStep config (CaptureModeMsg (captureModeOf config)),
          onlyIf (viewport config) (host env SetViewport),
          host env OverwriteRandom,
          host env OverwriteTime,
          host env InitializePageUtils,
          host env InitializeMediaTimeHandler,
          logStep config GoingTo,
          host env Goto,
          logStep config PageLoaded,
          onlyIf (preparePage config)
            (seq [logStep config PreparingPage,
                  host env PreparePage,
                  logStep config PagePrepared]),
          emit (Wait (startWaitMs config)),
          onlyIf (hasBeforeCapture (capturerOf env (captureModeOf config)))
            (host env BeforeCapture),
          host env GetBrowserFrames]"

text \<open>
  Lines 201 to 204: the \<^verbatim>\<open>while\<close> loop of the priming. It runs for as long as the page
  answers that the selector is not there, so it need not return: \<^const>\<open>None\<close> is a loop
  that runs forever.
\<close>

partial_function (option) primingLoop ::
  "config \<Rightarrow> env \<Rightarrow> rat \<Rightarrow> world \<Rightarrow> ((error \<times> world) + (rat \<times> world)) option" where
  "primingLoop config env browserTime w =
     (case host env (Query (answer env w)) w of
        Inl e \<Rightarrow> Some (Inl e)
      | Inr w1 \<Rightarrow>
          if \<not> answer env w then
            (case host env (GoToTimeAndAnimate (browserTime + frameDuration config)) w1 of
               Inl e \<Rightarrow> Some (Inl e)
             | Inr w2 \<Rightarrow> primingLoop config env (browserTime + frameDuration config) w2)
          else Some (Inr (browserTime, w1)))"

text \<open>Lines 195 to 205: \<^verbatim>\<open>browserTime\<close> starts at 0; the result is its final value.\<close>

definition priming ::
  "config \<Rightarrow> env \<Rightarrow> world \<Rightarrow> ((error \<times> world) + (rat \<times> world)) option" where
  "priming config env w =
     (if truthyStr (captureWhileSelectorExists config) then
        (case host env (Query (answer env w)) w of
           Inl e \<Rightarrow> Some (Inl e)
         | Inr w1 \<Rightarrow>
             if \<not> answer env w then primingLoop config env 0 w1
             else Some (Inr (0, w1)))
      else Some (Inr (0, w)))"

text \<open>
  Lines 255 to 287: one iteration of the marker loop. \<^verbatim>\<open>marker.data.frameCount\<close> throws
  a TypeError on a marker without \<^verbatim>\<open>data\<close>.
\<close>

datatype flow = Continue world | Break world

definition captureFrame :: "config \<Rightarrow> env \<Rightarrow> capturer \<Rightarrow> marker \<Rightarrow> step" where
  "captureFrame config env cap m =
     andThen
       (onlyIf (preparePageForScreenshot config)
          (seq [logStep config PreparingPageForScreenshot,
                (\<lambda>w. case mdata m of
                        None \<Rightarrow> Inl (TypeError, w)
                      | Some frameCount \<Rightarrow>
                          host env (PreparePageForScreenshot frameCount
                                      (framesToCapture config)) w),
                logStep config PagePrepared]))
       (onlyIf (hasCapture cap)
          (\<lambda>w. case mdata m of
                  None \<Rightarrow> Inl (TypeError, w)
                | Some frameCount \<Rightarrow>
                    host env (CaptureFrame frameCount (framesToCapture config)) w))"

definition continue :: "((error \<times> world) + world) \<Rightarrow> (error \<times> world) + flow" where
  "continue r = (case r of Inl e \<Rightarrow> Inl e | Inr w \<Rightarrow> Inr (Continue w))"

definition execMarker ::
  "config \<Rightarrow> env \<Rightarrow> capturer \<Rightarrow> marker \<Rightarrow> world \<Rightarrow> (error \<times> world) + flow" where
  "execMarker config env cap m w =
     (case mtype m of
        Capture \<Rightarrow>
          (case host env (GoToTimeAndAnimateForCapture (mtime m)) w of
             Inl e \<Rightarrow> Inl e
           | Inr w1 \<Rightarrow>
               if truthyStr (captureWhileSelectorExists config) then
                 (case host env (Query (answer env w1)) w1 of
                    Inl e \<Rightarrow> Inl e
                  | Inr w2 \<Rightarrow>
                      if \<not> answer env w1 then Inr (Break w2)
                      else continue (captureFrame config env cap m w2))
               else continue (captureFrame config env cap m w1))
      | OnlyAnimate \<Rightarrow> continue (host env (GoToTimeAndAnimate (mtime m)) w))"

text \<open>Lines 254 to 288: the marker loop; \<^verbatim>\<open>break\<close> leaves the rest of the list unexecuted.\<close>

fun runMarkers :: "config \<Rightarrow> env \<Rightarrow> capturer \<Rightarrow> marker list \<Rightarrow> step" where
  "runMarkers config env cap [] w = Inr w"
| "runMarkers config env cap (m # rest) w =
     (case execMarker config env cap m w of
        Inl e \<Rightarrow> Inl e
      | Inr (Break w') \<Rightarrow> Inr w'
      | Inr (Continue w') \<Rightarrow> runMarkers config env cap rest w')"

text \<open>Lines 289 to 294.\<close>

definition finish :: "config \<Rightarrow> env \<Rightarrow> capturer \<Rightarrow> step" where
  "finish config env cap =
     seq [logStep config ElapsedCaptureTime,
          onlyIf (hasAfterCapture cap) (host env AfterCapture),
          host env BrowserClose]"

text \<open>Lines 207 to 294, once the priming has returned \<^verbatim>\<open>browserTime\<close>.\<close>

definition capturePhase :: "config \<Rightarrow> env \<Rightarrow> rat \<Rightarrow> step" where
  "capturePhase config env browserTime =
     andThen
       (runMarkers config env (capturerOf env (captureModeOf config))
          (timeline config browserTime))
       (finish config env (capturerOf env (captureModeOf config)))"

text \<open>Lines 124 to 294: the body of the \<^verbatim>\<open>try\<close> block.\<close>

definition tryBody :: "config \<Rightarrow> env \<Rightarrow> world \<Rightarrow> ((error \<times> world) + world) option" where
  "tryBody config env w =
     (case initialize config env w of
        Inl e \<Rightarrow> Some (Inl e)
      | Inr w1 \<Rightarrow>
          (case priming config env w1 of
             None \<Rightarrow> None
           | Some (Inl e) \<Rightarrow> Some (Inl e)
           | Some (Inr (browserTime, w2)) \<Rightarrow>
               Some (capturePhase config env browserTime w2)))"

text \<open>
  Lines 46 to 298: the exported function. The promise it returns is resolved or rejected;
  \<^const>\<open>None\<close> is a run whose priming never ends.
\<close>

datatype settled = Resolved | Rejected error

definition initialWorld :: world where
  "initialWorld = \<lparr>events = [], console = []\<rparr>"

definition timesnap :: "config \<Rightarrow> env \<Rightarrow> (settled \<times> world) option" where
  "timesnap config env =
     (case tryBody config env initialWorld of
        None \<Rightarrow> None
      | Some (Inl (err, w)) \<Rightarrow> Some (Resolved, log_msg config (ErrorMsg err) w)
      | Some (Inr w) \<Rightarrow> Some (Resolved, w))"

subsection \<open>The lists of markers that the loops push\<close>

fun pushAll :: "(rat \<times> markerType \<times> int option) list \<Rightarrow> builder \<Rightarrow> builder" where
  "pushAll [] st = st"
| "pushAll (x # xs) st = pushAll xs (addMarker x st)"

definition toMarker :: "nat \<times> rat \<times> markerType \<times> int option \<Rightarrow> marker" where
  "toMarker p = (case p of (k, t, ty, d) \<Rightarrow> \<lparr>mtime = t, mtype = ty, mdata = d, mid = k\<rparr>)"

definition captureSpec :: "config \<Rightarrow> rat \<Rightarrow> int \<Rightarrow> rat \<times> markerType \<times> int option" where
  "captureSpec config browserTime i =
     (delayMs config + browserTime
        + resolvedFrameNumToTime config (of_int i) (framesToCapture config),
      Capture, Some i)"

definition animateSpec :: "rat \<Rightarrow> rat \<times> markerType \<times> int option" where
  "animateSpec t = (t, OnlyAnimate, None)"

definition stepTimes :: "rat \<Rightarrow> rat \<Rightarrow> int \<Rightarrow> rat list" where
  "stepTimes lastMarkerTime gap n =
     map (\<lambda>k. lastMarkerTime + (of_int k * gap) / of_int n) [1..n - 1]"

fun subdivisionTimes :: "rat option \<Rightarrow> rat \<Rightarrow> rat list \<Rightarrow> rat list" where
  "subdivisionTimes D lastMarkerTime [] = []"
| "subdivisionTimes D lastMarkerTime (t # rest) =
     (if truthy D then stepTimes lastMarkerTime (t - lastMarkerTime) \<lceil>(t - lastMarkerTime) / num D\<rceil>
      else [])
     @ subdivisionTimes D t rest"

definition earlyAnimationTimes :: "rat list \<Rightarrow> rat list" where
  "earlyAnimationTimes captureTimes =
     (case captureTimes of [] \<Rightarrow> [] | t # rest \<Rightarrow> if 100 < t then [20] else [])"

subsection \<open>The order of the specification\<close>

text \<open>
  The order of the specification: ascending time, ties broken by the creation-order id.
\<close>

definition markerBefore :: "marker \<Rightarrow> marker \<Rightarrow> bool" where
  "markerBefore a b = (mtime a < mtime b \<or> (mtime a = mtime b \<and> mid a < mid b))"

subsection \<open>Observations of a run\<close>

text \<open>The world in which a step has ended, whether it has returned or thrown.\<close>

fun finalWorld :: "(error \<times> world) + world \<Rightarrow> world" where
  "finalWorld (Inl (e, w)) = w"
| "finalWorld (Inr w) = w"

fun flowWorld :: "(error \<times> world) + flow \<Rightarrow> world" where
  "flowWorld (Inl (e, w)) = w"
| "flowWorld (Inr (Continue w)) = w"
| "flowWorld (Inr (Break w)) = w"

text \<open>The world in which the priming has ended.\<close>

fun primedWorld :: "(error \<times> world) + (rat \<times> world) \<Rightarrow> world" where
  "primedWorld (Inl (e, w)) = w"
| "primedWorld (Inr (browserTime, w)) = w"

text \<open>A step keeps a property of the recorded events.\<close>

definition preservesEv :: "(event list \<Rightarrow> bool) \<Rightarrow> step \<Rightarrow> bool" where
  "preservesEv Q f = (\<forall>w. Q (events w) \<longrightarrow> Q (events (finalWorld (f w))))"



text \<open>The target times of the clock advances among the events, in the order of the calls.\<close>

fun advanceTargets :: "event list \<Rightarrow> rat list" where
  "advanceTargets [] = []"
| "advanceTargets (GoToTimeAndAnimate t # es) = t # advanceTargets es"
| "advanceTargets (GoToTimeAndAnimateForCapture t # es) = t # advanceTargets es"
| "advanceTargets (e # es) = advanceTargets es"

text \<open>The events of \<open>n\<close> rounds of the priming loop that starts at virtual time \<open>bt\<close>.\<close>

definition primingRounds :: "config \<Rightarrow> rat \<Rightarrow> nat \<Rightarrow> event list" where
  "primingRounds config bt n =
     concat (map (\<lambda>k. [Query False, GoToTimeAndAnimate (bt + of_nat k * frameDuration config)])
       [1..<Suc n])"

text \<open>
  The value of \<^verbatim>\<open>browserTime\<close> when the builder starts: \<^const>\<open>None\<close> when the run has
  thrown before or the priming does not end.
\<close>

definition primedBrowserTime :: "config \<Rightarrow> env \<Rightarrow> rat option" where
  "primedBrowserTime config env =
     (case initialize config env initialWorld of
        Inl e \<Rightarrow> None
      | Inr w1 \<Rightarrow>
          (case priming config env w1 of
             None \<Rightarrow> None
           | Some (Inl e) \<Rightarrow> None
           | Some (Inr (browserTime, w2)) \<Rightarrow> Some browserTime))"

subsection \<open>Concrete configurations and pages\<close>

declare primingLoop.simps [code]

text \<open>The configuration with no option set.\<close>

definition emptyConfig :: config where
  "emptyConfig =
     \<lparr>frames = None, duration = None, fps = None, frameNumToTime = None, start = None,
      startDelay = None, maximumAnimationFrameDuration = None,
      captureWhileSelectorExists = None, canvasCaptureMode = None, viewport = False,
      preparePage = False, preparePageForScreenshot = False, quiet = False,
      logToStdErr = False\<rparr>"

text \<open>A capturer with the \<^verbatim>\<open>capture\<close> hook only.\<close>

definition plainCapturer :: capturer where
  "plainCapturer = \<lparr>hasBeforeCapture = False, hasCapture = True, hasAfterCapture = False\<rparr>"

text \<open>A page on which nothing throws and the selector is always found.\<close>

definition calmEnv :: env where
  "calmEnv =
     \<lparr>selectorFound = (\<lambda>k. True), throws = (\<lambda>k. False),
      capturerOf = (\<lambda>mode. plainCapturer)\<rparr>"

text \<open>
  A page on which the selector appears at the fourth call of \<^verbatim>\<open>page.$\<close>: the check
  before the priming loop and two checks of the loop do not find it.
\<close>

definition lateSelectorEnv :: env where
  "lateSelectorEnv = calmEnv\<lparr>selectorFound := (\<lambda>k. 3 \<le> k)\<rparr>"

text \<open>A page on which the selector is never found.\<close>

definition neverEnv :: env where
  "neverEnv = calmEnv\<lparr>selectorFound := (\<lambda>k. False)\<rparr>"

text \<open>A page on which the navigation throws, and one on which the second capture throws.\<close>

definition gotoThrowsEnv :: env where
  "gotoThrowsEnv = calmEnv\<lparr>throws := (\<lambda>k. k = 7)\<rparr>"

definition captureThrowsEnv :: env where
  "captureThrowsEnv = calmEnv\<lparr>throws := (\<lambda>k. k = 13)\<rparr>"

text \<open>Two frames at 10 frames per second, captured while \<^verbatim>\<open>#app\<close> exists.\<close>

definition twoFramesConfig :: config where
  "twoFramesConfig =
     emptyConfig\<lparr>frames := Some 2, fps := Some 10,
       captureWhileSelectorExists := Some ''#app''\<rparr>"

text \<open>
  Two frames at 10 frames per second after a start delay of one second, captured while
  \<^verbatim>\<open>#app\<close> exists.
\<close>

definition delayedTwoFramesConfig :: config where
  "delayedTwoFramesConfig = twoFramesConfig\<lparr>start := Some 1\<rparr>"

text \<open>The same two runs with a cap on the animation steps: 50 ms, and 500 ms after the delay.\<close>

definition subdividedTwoFramesConfig :: config where
  "subdividedTwoFramesConfig = twoFramesConfig\<lparr>maximumAnimationFrameDuration := Some 50\<rparr>"

definition delayedSubdividedConfig :: config where
  "delayedSubdividedConfig =
     delayedTwoFramesConfig\<lparr>maximumAnimationFrameDuration := Some 500\<rparr>"

text \<open>Scenario A of the specification: three frames at 10 frames per second.\<close>

definition scenarioA :: config where
  "scenarioA = emptyConfig\<lparr>frames := Some 3, fps := Some 10, start := Some 0\<rparr>"

text \<open>Scenario B: two seconds at one frame per second, animation steps of at most 500 ms.\<close>

definition scenarioB :: config where
  "scenarioB =
     emptyConfig\<lparr>duration := Some 2, fps := Some 1,
       maximumAnimationFrameDuration := Some 500\<rparr>"

text \<open>
  Scenario C: ten frames at 10 frames per second, animation steps of at most 50 ms,
  captured while \<^verbatim>\<open>#app\<close> exists; the selector is found by the check of the priming and by
  the checks of frames 1 to 5, and not by the check of frame 6.
\<close>

definition scenarioC :: config where
  "scenarioC =
     emptyConfig\<lparr>frames := Some 10, fps := Some 10,
       maximumAnimationFrameDuration := Some 50,
       captureWhileSelectorExists := Some ''#app''\<rparr>"

definition scenarioCEnv :: env where
  "scenarioCEnv = calmEnv\<lparr>selectorFound := (\<lambda>k. k < 6)\<rparr>"


text \<open>
  The world when the priming starts, for a configuration without viewport and hooks on a
  page where nothing throws.
\<close>

definition readyWorld :: world where
  "readyWorld =
     \<lparr>events = [GetBrowser, NewPage, InitCapturer Screenshot, OverwriteRandom, OverwriteTime,
        InitializePageUtils, InitializeMediaTimeHandler, Goto, Wait 0, GetBrowserFrames],
      console = [(StdOut, CaptureModeMsg Screenshot), (StdOut, GoingTo),
        (StdOut, PageLoaded)]\<rparr>"

section \<open>Resolution of the frame count and the frame rate\<close>

text \<open>
  Claim C8, as the code has it. A \<^verbatim>\<open>frames\<close> value that is set and not 0 is the frame
  count; the frame rate is then the \<^verbatim>\<open>fps\<close> given (set and not 0), else
  \<^verbatim>\<open>frames / duration\<close> when a duration is given (set and not 0), else 60. When
  \<^verbatim>\<open>frames\<close> is absent or 0, the frame rate is the \<^verbatim>\<open>fps\<close> given, else 60, and the
  frame count is the duration (5 when absent or 0) times the frame rate; with none of the
  three configured that is 300 frames at 60 per second. Without a caller's
  \<^verbatim>\<open>frameNumToTime\<close> the mapping is \<open>(frameIndex - 1) * (1000 / fps)\<close>.
\<close>

theorem frames_fps_resolution:
  "(truthy (frames config) \<longrightarrow>
      framesToCapture config = num (frames config) \<and>
      resolvedFps config =
        (if truthy (fps config) then num (fps config)
         else if truthy (duration config) then num (frames config) / num (duration config)
         else 60))
   \<and> (\<not> truthy (frames config) \<longrightarrow>
      resolvedFps config = (if truthy (fps config) then num (fps config) else 60) \<and>
      framesToCapture config =
        (if truthy (duration config) then num (duration config) else 5) * resolvedFps config)
   \<and> (frames config = None \<and> duration config = None \<and> fps config = None \<longrightarrow>
      framesToCapture config = 300 \<and> resolvedFps config = 60)
   \<and> (frameNumToTime config = None \<longrightarrow>
      resolvedFrameNumToTime config frameIndex totalFrames
        = (frameIndex - 1) * (1000 / resolvedFps config))"
  by (simp add: framesToCapture_def resolvedFps_def resolvedFrameNumToTime_def
      frameDuration_def defaultFPS_def defaultDuration_def truthy_def)

theorem frames_fps_resolution_witness:
  "truthy (frames (emptyConfig\<lparr>frames := Some 120, duration := Some 4\<rparr>))
   \<and> framesToCapture (emptyConfig\<lparr>frames := Some 120, duration := Some 4\<rparr>) = 120
   \<and> resolvedFps (emptyConfig\<lparr>frames := Some 120, duration := Some 4\<rparr>) = 30
   \<and> \<not> truthy (frames (emptyConfig\<lparr>duration := Some 2, fps := Some 25\<rparr>))
   \<and> framesToCapture (emptyConfig\<lparr>duration := Some 2, fps := Some 25\<rparr>) = 50
   \<and> framesToCapture emptyConfig = 300 \<and> resolvedFps emptyConfig = 60
   \<and> resolvedFrameNumToTime emptyConfig 4 300 = 50"
  using frames_fps_resolution [of "emptyConfig\<lparr>frames := Some 120, duration := Some 4\<rparr>"]
    frames_fps_resolution [of "emptyConfig\<lparr>duration := Some 2, fps := Some 25\<rparr>"]
    frames_fps_resolution [of emptyConfig 4 300]
  by (simp add: emptyConfig_def truthy_def num_def)

text \<open>
  Claim C8 as it is written fails for an explicit \<^verbatim>\<open>frames\<close> of 0: the test
  \<^verbatim>\<open>if (config.frames)\<close> takes 0 for an absent value, and 300 frames are captured.
\<close>

theorem zero_frames_counterexample:
  "frames (emptyConfig\<lparr>frames := Some 0\<rparr>) = Some 0
   \<and> framesToCapture (emptyConfig\<lparr>frames := Some 0\<rparr>) = 300"
  by (simp add: emptyConfig_def framesToCapture_def resolvedFps_def truthy_def
      defaultFPS_def defaultDuration_def)

section \<open>The timeline in closed form\<close>

text \<open>
  Every loop of the builder pushes a list of markers through \<^const>\<open>addMarker\<close>. The lists
  are written out here, and the array of markers is the numbering of their
  concatenation in creation order.
\<close>

lemma pushAll_append: "pushAll (xs @ ys) st = pushAll ys (pushAll xs st)"
  by (induction xs arbitrary: st) auto

lemma markers_pushAll:
  "markers (pushAll xs st) = markers st @ map toMarker (enumerate (markerId st) xs)"
  by (induction xs arbitrary: st) (auto simp: addMarker_def toMarker_def)

lemma markerId_pushAll: "markerId (pushAll xs st) = markerId st + length xs"
  by (induction xs arbitrary: st) (auto simp: addMarker_def)

lemma captureLoop_pushAll:
  "captureLoop config bt i acc =
     (pushAll (map (captureSpec config bt) [i..\<lfloor>framesToCapture config\<rfloor>]) (fst acc),
      snd acc @ map (\<lambda>k. delayMs config
          + resolvedFrameNumToTime config (of_int k) (framesToCapture config))
            [i..\<lfloor>framesToCapture config\<rfloor>])"
proof (induction config bt i acc rule: captureLoop.induct)
  case (1 config bt i acc)
  show ?case
  proof (cases "of_int i \<le> framesToCapture config")
    case True
    then have le: "i \<le> \<lfloor>framesToCapture config\<rfloor>" by (simp add: le_floor_iff)
    show ?thesis
      by (subst captureLoop.simps) (simp add: True 1 upto_rec1 [OF le] captureSpec_def [abs_def])
  next
    case False
    then have "\<not> i \<le> \<lfloor>framesToCapture config\<rfloor>" by (simp add: le_floor_iff)
    then show ?thesis
      by (subst captureLoop.simps) (simp add: False)
  qed
qed

lemma subdivideLoop_pushAll:
  "subdivideLoop lst gap n i st =
     pushAll (map (\<lambda>k. animateSpec (lst + (of_int k * gap) / of_int n)) [i..n - 1]) st"
proof (induction lst gap n i st rule: subdivideLoop.induct)
  case (1 lst gap n i st)
  show ?case
  proof (cases "i < n")
    case True
    then have le: "i \<le> n - 1" by simp
    show ?thesis
      by (subst subdivideLoop.simps) (simp add: True 1 upto_rec1 [OF le] animateSpec_def [abs_def])
  next
    case False
    then show ?thesis
      by (subst subdivideLoop.simps) simp
  qed
qed

lemma subdivide_pushAll:
  "subdivide D lst cts st = pushAll (map animateSpec (subdivisionTimes D lst cts)) st"
  by (induction cts arbitrary: lst st)
     (simp_all add: pushAll_append subdivideLoop_pushAll stepTimes_def Let_def comp_def)

lemma addEarlyAnimation_pushAll:
  "addEarlyAnimation cts st = pushAll (map animateSpec (earlyAnimationTimes cts)) st"
  by (simp add: addEarlyAnimation_def earlyAnimationTimes_def animateSpec_def
      addAnimationGapThreshold_def addAnimationFrameTime_def split: list.splits)

lemma captureTimesOf_eq:
  "captureTimesOf config bt =
     map (\<lambda>k. delayMs config
          + resolvedFrameNumToTime config (of_int k) (framesToCapture config))
       [1..\<lfloor>framesToCapture config\<rfloor>]"
  by (simp add: captureTimesOf_def captureLoop_pushAll)

lemma buildMarkers_eq:
  "buildMarkers config bt =
     map toMarker (enumerate 0
       (map (captureSpec config bt) [1..\<lfloor>framesToCapture config\<rfloor>]
        @ map animateSpec (earlyAnimationTimes (captureTimesOf config bt))
        @ map animateSpec (subdivisionTimes (maximumAnimationFrameDuration config) 0
             (captureTimesOf config bt))))"
  by (simp add: buildMarkers_def Let_def captureLoop_pushAll subdivide_pushAll
      addEarlyAnimation_pushAll markers_pushAll markerId_pushAll enumerate_append_eq
      captureTimesOf_eq)

lemma enumerate_captureSpec:
  "map toMarker (enumerate k (map (captureSpec config bt) [i..n])) =
     map (\<lambda>j. \<lparr>mtime = delayMs config + bt
                  + resolvedFrameNumToTime config (of_int j) (framesToCapture config),
               mtype = Capture, mdata = Some j, mid = k + nat (j - i)\<rparr>) [i..n]"
proof (induction i n arbitrary: k rule: upto.induct)
  case (1 i n)
  show ?case
  proof (cases "i \<le> n")
    case True
    have shift: "Suc k + nat (j - (i + 1)) = k + nat (j - i)" if "j \<in> set [i + 1..n]" for j
      using that by auto
    show ?thesis
      using 1 [OF True, of "Suc k"] shift
      by (simp add: upto_rec1 [OF True] toMarker_def captureSpec_def cong: map_cong)
  next
    case False
    then show ?thesis by simp
  qed
qed

lemma filter_Capture_captures:
  "filter (\<lambda>m. mtype m = Capture) (map toMarker (enumerate k (map (captureSpec config bt) is)))
     = map toMarker (enumerate k (map (captureSpec config bt) is))"
  by (induction "is" arbitrary: k) (simp_all add: toMarker_def captureSpec_def)

lemma filter_Capture_animations:
  "filter (\<lambda>m. mtype m = Capture) (map toMarker (enumerate k (map animateSpec ts))) = []"
  by (induction ts arbitrary: k) (simp_all add: toMarker_def animateSpec_def)

lemma filter_OnlyAnimate_captures:
  "filter (\<lambda>m. mtype m = OnlyAnimate)
     (map toMarker (enumerate k (map (captureSpec config bt) is))) = []"
  by (induction "is" arbitrary: k) (simp_all add: toMarker_def captureSpec_def)

lemma filter_OnlyAnimate_animations:
  "filter (\<lambda>m. mtype m = OnlyAnimate) (map toMarker (enumerate k (map animateSpec ts)))
     = map toMarker (enumerate k (map animateSpec ts))"
  by (induction ts arbitrary: k) (simp_all add: toMarker_def animateSpec_def)

lemma mtime_animations:
  "map (mtime \<circ> toMarker) (enumerate k (map animateSpec ts)) = ts"
  by (induction ts arbitrary: k) (simp_all add: toMarker_def animateSpec_def)

lemma captures_of_buildMarkers:
  "filter (\<lambda>m. mtype m = Capture) (buildMarkers config bt) =
     map (\<lambda>i. \<lparr>mtime = delayMs config + bt
                  + resolvedFrameNumToTime config (of_int i) (framesToCapture config),
               mtype = Capture, mdata = Some i, mid = nat (i - 1)\<rparr>)
       [1..\<lfloor>framesToCapture config\<rfloor>]"
  by (simp add: buildMarkers_eq enumerate_append_eq filter_Capture_captures
      filter_Capture_animations enumerate_captureSpec)

lemma animations_of_buildMarkers:
  "map mtime (filter (\<lambda>m. mtype m = OnlyAnimate) (buildMarkers config bt)) =
     earlyAnimationTimes (captureTimesOf config bt)
     @ subdivisionTimes (maximumAnimationFrameDuration config) 0 (captureTimesOf config bt)"
  by (simp add: buildMarkers_eq enumerate_append_eq filter_OnlyAnimate_captures
      filter_OnlyAnimate_animations mtime_animations)

lemma mid_buildMarkers:
  "map mid (buildMarkers config bt) = [0..<length (buildMarkers config bt)]"
proof -
  have "map mid (map toMarker (enumerate k xs)) = [k..<k + length xs]" for k xs
    by (induction xs arbitrary: k) (auto simp: toMarker_def upt_rec)
  then show ?thesis
    by (simp add: buildMarkers_eq del: map_map)
qed

lemma priming_unconfigured:
  "\<not> truthyStr (captureWhileSelectorExists config) \<Longrightarrow>
     priming config env w = Some (Inr (0, w))"
  by (simp add: priming_def)

section \<open>The Capture markers\<close>

text \<open>
  Claim C2, as the code has it. With \<open>N\<close> the resolved frame count and \<open>bt\<close> the virtual
  time that the priming has reached when the builder starts, the Capture markers are, in
  creation order, one for each frame index \<open>i\<close> from 1 to the integer part of \<open>N\<close> (there
  are \<open>N\<close> of them when \<open>N\<close> is a natural number), with payload \<open>i\<close>, id \<open>i - 1\<close> and time
  \<open>delay + bt + frameNumToTime(i, N)\<close>. Without a \<^verbatim>\<open>captureWhileSelectorExists\<close> selector
  the priming leaves \<open>bt\<close> at 0, and the time is \<open>delay + frameNumToTime(i, N)\<close>.
\<close>

theorem capture_markers:
  "filter (\<lambda>m. mtype m = Capture) (buildMarkers config bt) =
     map (\<lambda>i. \<lparr>mtime = delayMs config + bt
                  + resolvedFrameNumToTime config (of_int i) (framesToCapture config),
               mtype = Capture, mdata = Some i, mid = nat (i - 1)\<rparr>)
       [1..\<lfloor>framesToCapture config\<rfloor>]
   \<and> length (filter (\<lambda>m. mtype m = Capture) (buildMarkers config bt))
       = nat \<lfloor>framesToCapture config\<rfloor>
   \<and> (\<not> truthyStr (captureWhileSelectorExists config) \<longrightarrow>
        priming config env w = Some (Inr (0, w)))"
  by (simp add: captures_of_buildMarkers priming_unconfigured)

theorem capture_markers_witness:
  "filter (\<lambda>m. mtype m = Capture)
     (buildMarkers (emptyConfig\<lparr>frames := Some 2, fps := Some 10, start := Some 1\<rparr>) 0) =
     [\<lparr>mtime = 1000, mtype = Capture, mdata = Some 1, mid = 0\<rparr>,
      \<lparr>mtime = 1100, mtype = Capture, mdata = Some 2, mid = 1\<rparr>]
   \<and> \<not> truthyStr (captureWhileSelectorExists
         (emptyConfig\<lparr>frames := Some 2, fps := Some 10, start := Some 1\<rparr>))
   \<and> priming (emptyConfig\<lparr>frames := Some 2, fps := Some 10, start := Some 1\<rparr>)
         calmEnv initialWorld = Some (Inr (0, initialWorld))"
  using capture_markers [of "emptyConfig\<lparr>frames := Some 2, fps := Some 10, start := Some 1\<rparr>"
      0 calmEnv initialWorld]
  by (simp add: emptyConfig_def truthyStr_def framesToCapture_def truthy_def num_def
      delayMs_def resolvedFrameNumToTime_def frameDuration_def resolvedFps_def upto_rec1)

text \<open>
  Claim C2 as it is written fails after a pre-roll: on a page where the selector shows up
  after two priming steps of 100 ms, the two Capture markers are at 200 and 300, and
  \<open>delay + frameNumToTime(i, 2)\<close> is 0 and 100.
\<close>

theorem capture_markers_counterexample:
  "primedBrowserTime twoFramesConfig lateSelectorEnv = Some 200
   \<and> map mtime (filter (\<lambda>m. mtype m = Capture) (buildMarkers twoFramesConfig 200))
       = [200, 300]
   \<and> delayMs twoFramesConfig
        + resolvedFrameNumToTime twoFramesConfig 1 (framesToCapture twoFramesConfig) = 0
   \<and> delayMs twoFramesConfig
        + resolvedFrameNumToTime twoFramesConfig 2 (framesToCapture twoFramesConfig) = 100"
  by code_simp

section \<open>The AnimateOnly markers\<close>


lemma subdivisionTimes_append:
  "subdivisionTimes D lst (xs @ y # ys) =
     subdivisionTimes D lst (xs @ [y]) @ subdivisionTimes D y ys"
  by (induction xs arbitrary: lst) simp_all

lemma stepTimes_length: "length (stepTimes a gap n) = nat (n - 1)"
  by (simp add: stepTimes_def)

lemma ceiling_ge_2:
  fixes gap D :: rat
  assumes "0 < D" "D < gap"
  shows "2 \<le> \<lceil>gap / D\<rceil>"
proof -
  have "1 < gap / D" using assms by (simp add: field_simps)
  then have "1 < \<lceil>gap / D\<rceil>" by (simp add: less_ceiling_iff)
  then show ?thesis by simp
qed

lemma stepTimes_between:
  fixes gap :: rat
  assumes "0 < gap" "x \<in> set (stepTimes a gap n)"
  shows "a < x \<and> x < a + gap"
proof -
  from assms(2) obtain i where i: "1 \<le> i" "i \<le> n - 1" and x: "x = a + (of_int i * gap) / of_int n"
    by (auto simp: stepTimes_def)
  have n: "(0::rat) < of_int n" and i0: "(0::rat) < of_int i" and lt: "(of_int i :: rat) < of_int n"
    using i by simp_all
  have "0 < (of_int i * gap) / of_int n"
    using n i0 assms(1) by simp
  moreover have "(of_int i * gap) / of_int n < gap"
  proof -
    have "of_int i * gap < of_int n * gap"
      using lt assms(1) by simp
    then show ?thesis using n by (simp add: field_simps)
  qed
  ultimately show ?thesis using x by simp
qed



text \<open>
  The subdivision pass, relative to the array. With \<^verbatim>\<open>maximumAnimationFrameDuration\<close> a
  positive \<open>D\<close> and two consecutive entries \<open>t\<close> and \<open>t'\<close> of \<^verbatim>\<open>captureTimes\<close> more than \<open>D\<close>
  apart, the iteration for \<open>t'\<close> inserts, after the markers of the earlier iterations and
  before those of the later ones, the markers at \<open>t + i * (t' - t) / n\<close> for \<open>i\<close> from 1 to
  \<open>n - 1\<close>, where \<open>n\<close> is the ceiling of \<open>(t' - t) / D\<close>: there are \<open>n - 1\<close> of them, at least
  one, all strictly between \<open>t\<close> and \<open>t'\<close>. In scenario B, which has no pre-roll, the
  entries are 0 and 1000 and the only AnimateOnly marker is at 500.
\<close>

lemma subdivision_between_capture_times:
  "(maximumAnimationFrameDuration config = Some D \<and> 0 < D
      \<and> captureTimesOf config bt = pre @ t # t' # post \<and> D < t' - t \<longrightarrow>
      map mtime (filter (\<lambda>m. mtype m = OnlyAnimate) (buildMarkers config bt)) =
         earlyAnimationTimes (captureTimesOf config bt)
         @ subdivisionTimes (Some D) 0 (pre @ [t])
         @ map (\<lambda>i. t + (of_int i * (t' - t)) / of_int \<lceil>(t' - t) / D\<rceil>)
             [1..\<lceil>(t' - t) / D\<rceil> - 1]
         @ subdivisionTimes (Some D) t' post
      \<and> length (map (\<lambda>i. t + (of_int i * (t' - t)) / of_int \<lceil>(t' - t) / D\<rceil>)
             [1..\<lceil>(t' - t) / D\<rceil> - 1]) = nat (\<lceil>(t' - t) / D\<rceil> - 1)
      \<and> 1 \<le> \<lceil>(t' - t) / D\<rceil> - 1
      \<and> (\<forall>x \<in> set (map (\<lambda>i. t + (of_int i * (t' - t)) / of_int \<lceil>(t' - t) / D\<rceil>)
             [1..\<lceil>(t' - t) / D\<rceil> - 1]). t < x \<and> x < t'))
   \<and> captureTimesOf scenarioB 0 = [0, 1000]
   \<and> map mtime (filter (\<lambda>m. mtype m = OnlyAnimate) (buildMarkers scenarioB 0)) = [500]"
proof -
  have B1: "captureTimesOf scenarioB 0 = [0, 1000]"
    by code_simp
  have B2: "map mtime (filter (\<lambda>m. mtype m = OnlyAnimate) (buildMarkers scenarioB 0)) = [500]"
    by code_simp
  have general: "map mtime (filter (\<lambda>m. mtype m = OnlyAnimate) (buildMarkers config bt)) =
         earlyAnimationTimes (captureTimesOf config bt)
         @ subdivisionTimes (Some D) 0 (pre @ [t])
         @ stepTimes t (t' - t) \<lceil>(t' - t) / D\<rceil>
         @ subdivisionTimes (Some D) t' post
      \<and> length (stepTimes t (t' - t) \<lceil>(t' - t) / D\<rceil>) = nat (\<lceil>(t' - t) / D\<rceil> - 1)
      \<and> 1 \<le> \<lceil>(t' - t) / D\<rceil> - 1
      \<and> (\<forall>x \<in> set (stepTimes t (t' - t) \<lceil>(t' - t) / D\<rceil>). t < x \<and> x < t')"
    if D: "maximumAnimationFrameDuration config = Some D" "0 < D"
      and cts: "captureTimesOf config bt = pre @ t # t' # post" and gap: "D < t' - t"
  proof -
    have pos: "0 < t' - t" using D(2) gap by simp
    have split: "subdivisionTimes (Some D) 0 (pre @ t # t' # post) =
        subdivisionTimes (Some D) 0 (pre @ [t])
        @ stepTimes t (t' - t) \<lceil>(t' - t) / D\<rceil> @ subdivisionTimes (Some D) t' post"
    proof -
      have "subdivisionTimes (Some D) t (t' # post) =
          stepTimes t (t' - t) \<lceil>(t' - t) / D\<rceil> @ subdivisionTimes (Some D) t' post"
        using D(2) by (simp add: truthy_def num_def)
      then show ?thesis
        using subdivisionTimes_append [of "Some D" 0 pre t "t' # post"] by simp
    qed
    have between: "\<forall>x \<in> set (stepTimes t (t' - t) \<lceil>(t' - t) / D\<rceil>). t < x \<and> x < t'"
      using stepTimes_between [OF pos] by fastforce
    show ?thesis
      using animations_of_buildMarkers [of config bt] ceiling_ge_2 [OF D(2) gap] between
      by (simp add: D(1) cts split stepTimes_length)
  qed
  have first: "maximumAnimationFrameDuration config = Some D \<and> 0 < D
      \<and> captureTimesOf config bt = pre @ t # t' # post \<and> D < t' - t \<longrightarrow>
      map mtime (filter (\<lambda>m. mtype m = OnlyAnimate) (buildMarkers config bt)) =
         earlyAnimationTimes (captureTimesOf config bt)
         @ subdivisionTimes (Some D) 0 (pre @ [t])
         @ stepTimes t (t' - t) \<lceil>(t' - t) / D\<rceil>
         @ subdivisionTimes (Some D) t' post
      \<and> length (stepTimes t (t' - t) \<lceil>(t' - t) / D\<rceil>) = nat (\<lceil>(t' - t) / D\<rceil> - 1)
      \<and> 1 \<le> \<lceil>(t' - t) / D\<rceil> - 1
      \<and> (\<forall>x \<in> set (stepTimes t (t' - t) \<lceil>(t' - t) / D\<rceil>). t < x \<and> x < t')"
  proof (intro impI, elim conjE)
    assume "maximumAnimationFrameDuration config = Some D" "0 < D"
      "captureTimesOf config bt = pre @ t # t' # post" "D < t' - t"
    then show "map mtime (filter (\<lambda>m. mtype m = OnlyAnimate) (buildMarkers config bt)) =
         earlyAnimationTimes (captureTimesOf config bt)
         @ subdivisionTimes (Some D) 0 (pre @ [t])
         @ stepTimes t (t' - t) \<lceil>(t' - t) / D\<rceil>
         @ subdivisionTimes (Some D) t' post
      \<and> length (stepTimes t (t' - t) \<lceil>(t' - t) / D\<rceil>) = nat (\<lceil>(t' - t) / D\<rceil> - 1)
      \<and> 1 \<le> \<lceil>(t' - t) / D\<rceil> - 1
      \<and> (\<forall>x \<in> set (stepTimes t (t' - t) \<lceil>(t' - t) / D\<rceil>). t < x \<and> x < t')"
      by (rule general)
  qed
  show ?thesis
    by (rule conjI [OF first [unfolded stepTimes_def] conjI [OF B1 B2]])
qed

text \<open>
  Claim C3 does not hold of the code. The markers of the subdivision pass are placed
  between the entries of \<^verbatim>\<open>captureTimes\<close> (lines 232 to 238), the Capture markers are at
  those entries plus \<^verbatim>\<open>browserTime\<close> (line 210). For two frames at 10 frames per second and
  a cap of 50 ms, on a page where the selector appears at the fourth check, the priming
  leaves the clock at 200: the two captures are at 200 and 300, a gap of 100, and the only
  AnimateOnly marker is at 50, so that no marker lies between the captures and the clock
  goes 100, 200, 50, 200, 300.
\<close>

theorem subdivision_misplaced_after_priming:
  "primedBrowserTime subdividedTwoFramesConfig lateSelectorEnv = Some 200
   \<and> maximumAnimationFrameDuration subdividedTwoFramesConfig = Some 50
   \<and> map mtime (filter (\<lambda>m. mtype m = Capture) (timeline subdividedTwoFramesConfig 200))
       = [200, 300]
   \<and> map mtime (filter (\<lambda>m. mtype m = OnlyAnimate) (timeline subdividedTwoFramesConfig 200))
       = [50]
   \<and> map_option (\<lambda>r. advanceTargets (events (snd r)))
        (timesnap subdividedTwoFramesConfig lateSelectorEnv)
       = Some [100, 200, 50, 200, 300]"
  by code_simp

text \<open>
  The first iteration of the subdivision pass, relative to the array. The pass starts with
  \<^verbatim>\<open>lastMarkerTime = 0\<close>: with \<^verbatim>\<open>maximumAnimationFrameDuration\<close> a positive \<open>D\<close> and a first
  entry \<open>t1\<close> of \<^verbatim>\<open>captureTimes\<close> above \<open>D\<close>, its first iteration inserts the markers at
  \<open>i * t1 / n\<close> for \<open>i\<close> from 1 to \<open>n - 1\<close>, where \<open>n\<close> is the ceiling of \<open>t1 / D\<close>: there are
  \<open>n - 1\<close> of them, at least one, all strictly between 0 and \<open>t1\<close>. With the default
  mapping, no delay and at least one frame, the first entry is 0 and the first iteration
  inserts nothing.
\<close>

lemma subdivision_before_first_capture_time:
  "(maximumAnimationFrameDuration config = Some D \<and> 0 < D
      \<and> captureTimesOf config bt = t1 # rest \<and> D < t1 \<longrightarrow>
      map mtime (filter (\<lambda>m. mtype m = OnlyAnimate) (buildMarkers config bt)) =
         earlyAnimationTimes (t1 # rest)
         @ map (\<lambda>i. (of_int i * t1) / of_int \<lceil>t1 / D\<rceil>) [1..\<lceil>t1 / D\<rceil> - 1]
         @ subdivisionTimes (Some D) t1 rest
      \<and> length (map (\<lambda>i. (of_int i * t1) / of_int \<lceil>t1 / D\<rceil>) [1..\<lceil>t1 / D\<rceil> - 1])
          = nat (\<lceil>t1 / D\<rceil> - 1)
      \<and> 1 \<le> \<lceil>t1 / D\<rceil> - 1
      \<and> (\<forall>x \<in> set (map (\<lambda>i. (of_int i * t1) / of_int \<lceil>t1 / D\<rceil>) [1..\<lceil>t1 / D\<rceil> - 1]).
            0 < x \<and> x < t1))
   \<and> (frameNumToTime config = None \<and> num (start config) = 0
        \<and> 1 \<le> framesToCapture config \<longrightarrow>
      captureTimesOf config bt \<noteq> [] \<and> hd (captureTimesOf config bt) = 0
      \<and> map mtime (filter (\<lambda>m. mtype m = OnlyAnimate) (buildMarkers config bt)) =
          subdivisionTimes (maximumAnimationFrameDuration config) 0
            (tl (captureTimesOf config bt)))"
proof -
  have first: "map mtime (filter (\<lambda>m. mtype m = OnlyAnimate) (buildMarkers config bt)) =
         earlyAnimationTimes (t1 # rest)
         @ stepTimes 0 t1 \<lceil>t1 / D\<rceil>
         @ subdivisionTimes (Some D) t1 rest
      \<and> length (stepTimes 0 t1 \<lceil>t1 / D\<rceil>) = nat (\<lceil>t1 / D\<rceil> - 1)
      \<and> 1 \<le> \<lceil>t1 / D\<rceil> - 1
      \<and> (\<forall>x \<in> set (stepTimes 0 t1 \<lceil>t1 / D\<rceil>). 0 < x \<and> x < t1)"
    if D: "maximumAnimationFrameDuration config = Some D" "0 < D"
      and cts: "captureTimesOf config bt = t1 # rest" and gap: "D < t1"
  proof -
    have pos: "0 < t1" using D(2) gap by simp
    have between: "\<forall>x \<in> set (stepTimes 0 t1 \<lceil>t1 / D\<rceil>). 0 < x \<and> x < t1"
      using stepTimes_between [OF pos, of _ 0] by fastforce
    show ?thesis
      using animations_of_buildMarkers [of config bt] ceiling_ge_2 [OF D(2) gap] between D(2)
      by (simp add: D(1) cts stepTimes_length truthy_def num_def)
  qed
  have second: "captureTimesOf config bt \<noteq> [] \<and> hd (captureTimesOf config bt) = 0
      \<and> map mtime (filter (\<lambda>m. mtype m = OnlyAnimate) (buildMarkers config bt)) =
          subdivisionTimes (maximumAnimationFrameDuration config) 0
            (tl (captureTimesOf config bt))"
    if f: "frameNumToTime config = None" and d: "num (start config) = 0"
      and n: "1 \<le> framesToCapture config"
  proof -
    have le: "1 \<le> \<lfloor>framesToCapture config\<rfloor>" using n by (simp add: le_floor_iff)
    obtain rest' where cts: "captureTimesOf config bt = 0 # rest'"
      by (simp add: captureTimesOf_eq upto_rec1 [OF le] delayMs_def d
          resolvedFrameNumToTime_def f)
    have "subdivisionTimes (maximumAnimationFrameDuration config) 0 (0 # rest') =
          subdivisionTimes (maximumAnimationFrameDuration config) 0 rest'"
      by (simp add: stepTimes_def)
    moreover have "earlyAnimationTimes (0 # rest') = []"
      by (simp add: earlyAnimationTimes_def)
    ultimately show ?thesis
      using animations_of_buildMarkers [of config bt]
      by (simp add: cts)
  qed
  have A: "maximumAnimationFrameDuration config = Some D \<and> 0 < D
      \<and> captureTimesOf config bt = t1 # rest \<and> D < t1 \<longrightarrow>
      map mtime (filter (\<lambda>m. mtype m = OnlyAnimate) (buildMarkers config bt)) =
         earlyAnimationTimes (t1 # rest)
         @ stepTimes 0 t1 \<lceil>t1 / D\<rceil>
         @ subdivisionTimes (Some D) t1 rest
      \<and> length (stepTimes 0 t1 \<lceil>t1 / D\<rceil>) = nat (\<lceil>t1 / D\<rceil> - 1)
      \<and> 1 \<le> \<lceil>t1 / D\<rceil> - 1
      \<and> (\<forall>x \<in> set (stepTimes 0 t1 \<lceil>t1 / D\<rceil>). 0 < x \<and> x < t1)"
    using first by (intro impI) (elim conjE)
  have B: "frameNumToTime config = None \<and> num (start config) = 0
        \<and> 1 \<le> framesToCapture config \<longrightarrow>
      captureTimesOf config bt \<noteq> [] \<and> hd (captureTimesOf config bt) = 0
      \<and> map mtime (filter (\<lambda>m. mtype m = OnlyAnimate) (buildMarkers config bt)) =
          subdivisionTimes (maximumAnimationFrameDuration config) 0
            (tl (captureTimesOf config bt))"
    using second by (intro impI) (elim conjE)
  have step0: "stepTimes 0 t1 \<lceil>t1 / D\<rceil> =
      map (\<lambda>i. (of_int i * t1) / of_int \<lceil>t1 / D\<rceil>) [1..\<lceil>t1 / D\<rceil> - 1]"
    by (simp add: stepTimes_def)
  show ?thesis
    by (rule conjI [OF A [unfolded step0] B])
qed

text \<open>
  Claim C10 does not hold of the code. The first iteration subdivides the gap from 0 to
  the first entry of \<^verbatim>\<open>captureTimes\<close>, the first Capture marker is at that entry plus
  \<^verbatim>\<open>browserTime\<close> (line 210). For two frames at 10 frames per second after a start delay of
  one second and a cap of 500 ms, on a page where the selector appears at the fourth check,
  the priming leaves the clock at 200: the first capture is at 1200 and the AnimateOnly
  markers are at 20 and 500, so that the clock goes 100, 200, 20, 500, 1200, 1300 and the
  step from 500 to 1200 is of 700 ms.
\<close>

theorem first_gap_unbounded_after_priming:
  "primedBrowserTime delayedSubdividedConfig lateSelectorEnv = Some 200
   \<and> maximumAnimationFrameDuration delayedSubdividedConfig = Some 500
   \<and> map mtime (filter (\<lambda>m. mtype m = Capture) (timeline delayedSubdividedConfig 200))
       = [1200, 1300]
   \<and> map mtime (filter (\<lambda>m. mtype m = OnlyAnimate) (timeline delayedSubdividedConfig 200))
       = [20, 500]
   \<and> map_option (\<lambda>r. advanceTargets (events (snd r)))
        (timesnap delayedSubdividedConfig lateSelectorEnv)
       = Some [100, 200, 20, 500, 1200, 1300]"
  by code_simp

section \<open>The sorted timeline\<close>

lemma compareMarkers_le:
  "compareMarkers a b \<le> 0 \<longleftrightarrow> markerBefore a b \<or> (mtime a = mtime b \<and> mid a = mid b)"
  by (auto simp: compareMarkers_def markerBefore_def)


lemma compareMarkers_greater: "0 < compareMarkers a b \<longleftrightarrow> markerBefore b a"
  by (auto simp: compareMarkers_def markerBefore_def)


lemma markerBefore_trans: "markerBefore a b \<Longrightarrow> markerBefore b c \<Longrightarrow> markerBefore a c"
  by (auto simp: markerBefore_def)

lemma markerBefore_asym: "markerBefore a b \<Longrightarrow> \<not> markerBefore b a"
  by (auto simp: markerBefore_def)

lemma set_insertMarker: "set (insertMarker m xs) = insert m (set xs)"
  by (induction xs) auto

lemma mset_insertMarker: "mset (insertMarker m xs) = add_mset m (mset xs)"
  by (induction xs) auto

lemma mset_sortMarkers: "mset (sortMarkers ms) = mset ms"
  by (induction ms) (simp_all add: sortMarkers_def mset_insertMarker)

lemma sorted_insertMarker:
  assumes "sorted_wrt markerBefore xs" "mid m \<notin> mid ` set xs"
  shows "sorted_wrt markerBefore (insertMarker m xs)"
  using assms
proof (induction xs)
  case Nil
  then show ?case by simp
next
  case (Cons x xs)
  show ?case
  proof (cases "compareMarkers m x \<le> 0")
    case True
    with Cons.prems(2) have mx: "markerBefore m x"
      by (auto simp: compareMarkers_le)
    then have "\<forall>y \<in> set xs. markerBefore m y"
      using Cons.prems(1) by (auto intro: markerBefore_trans)
    with True mx Cons.prems(1) show ?thesis by simp
  next
    case False
    then have "markerBefore x m"
      using compareMarkers_greater [of m x] by simp
    with False Cons show ?thesis
      by (auto simp: set_insertMarker)
  qed
qed

lemma sorted_sortMarkers:
  "distinct (map mid ms) \<Longrightarrow> sorted_wrt markerBefore (sortMarkers ms)"
proof (induction ms)
  case Nil
  then show ?case by (simp add: sortMarkers_def)
next
  case (Cons m ms)
  have "set (sortMarkers ms) = set ms"
    using mset_sortMarkers [of ms] by (metis set_mset_mset)
  with Cons show ?case
    using sorted_insertMarker [of "sortMarkers ms" m]
    by (simp add: sortMarkers_def)
qed

lemma sorted_markers_unique:
  assumes "sorted_wrt markerBefore xs" "sorted_wrt markerBefore ys" "set xs = set ys"
  shows "xs = ys"
  using assms
proof (induction xs arbitrary: ys)
  case Nil
  then show ?case by simp
next
  case (Cons x xs)
  then obtain y ys' where ys: "ys = y # ys'"
    by (cases ys) auto
  have irrefl: "\<not> markerBefore a a" for a
    by (simp add: markerBefore_def)
  have xy: "x = y"
  proof (rule ccontr)
    assume ne: "x \<noteq> y"
    with Cons.prems(3) ys have "x \<in> set ys'" "y \<in> set xs" by auto
    with Cons.prems(1,2) ys have "markerBefore y x" "markerBefore x y" by auto
    then show False using markerBefore_asym by blast
  qed
  have "x \<notin> set xs" "y \<notin> set ys'"
    using Cons.prems(1,2) ys irrefl by auto
  with Cons.prems(3) ys xy have "set xs = set ys'" by auto
  with Cons ys xy show ?case by auto
qed

lemma distinct_mid_buildMarkers: "distinct (map mid (buildMarkers config bt))"
  by (simp add: mid_buildMarkers)

text \<open>
  The sorted array is determined by the comparator alone: every arrangement of the markers
  that is ascending by (time, id) is the one computed here.
\<close>

lemma timeline_unique:
  assumes "mset xs = mset (buildMarkers config bt)" "sorted_wrt markerBefore xs"
  shows "xs = timeline config bt"
proof -
  have "set xs = set (timeline config bt)"
    using assms(1) mset_sortMarkers [of "buildMarkers config bt"]
    by (metis set_mset_mset timeline_def)
  then show ?thesis
    using assms(2) sorted_sortMarkers [OF distinct_mid_buildMarkers, of config bt]
    by (auto intro: sorted_markers_unique simp: timeline_def)
qed

section \<open>Steps of the run\<close>

lemma events_record_event [simp]: "events (record_event ev w) = events w @ [ev]"
  by (simp add: record_event_def)

lemma console_record_event [simp]: "console (record_event ev w) = console w"
  by (simp add: record_event_def)

lemma events_log_msg [simp]: "events (log_msg config m w) = events w"
  by (simp add: log_msg_def)

lemma queriesMade_record_event [simp]:
  "queriesMade (record_event ev w) = queriesMade w + (if isQuery ev then 1 else 0)"
  by (simp add: queriesMade_def)

lemma queriesMade_log_msg [simp]: "queriesMade (log_msg config m w) = queriesMade w"
  by (simp add: queriesMade_def)

lemma host_returns:
  "\<not> throws env (length (events w)) \<Longrightarrow> host env ev w = Inr (record_event ev w)"
  by (simp add: host_def)

lemma host_throws:
  "throws env (length (events w)) \<Longrightarrow> host env ev w = Inl (HostError ev, w)"
  by (simp add: host_def)

lemma preservesEv_host:
  "(\<And>es. Q es \<Longrightarrow> Q (es @ [ev])) \<Longrightarrow> preservesEv Q (host env ev)"
  by (simp add: preservesEv_def host_def)

lemma preservesEv_emit:
  "(\<And>es. Q es \<Longrightarrow> Q (es @ [ev])) \<Longrightarrow> preservesEv Q (emit ev)"
  by (simp add: preservesEv_def emit_def)

lemma preservesEv_logStep: "preservesEv Q (logStep config m)"
  by (simp add: preservesEv_def logStep_def)

lemma preservesEv_skip: "preservesEv Q skip"
  by (simp add: preservesEv_def skip_def)

lemma preservesEv_andThen:
  "preservesEv Q f \<Longrightarrow> preservesEv Q g \<Longrightarrow> preservesEv Q (andThen f g)"
  unfolding preservesEv_def andThen_def
  by (auto split: sum.splits)

lemma preservesEv_onlyIf: "preservesEv Q f \<Longrightarrow> preservesEv Q (onlyIf c f)"
  by (simp add: onlyIf_def preservesEv_skip)

lemma preservesEv_seq: "(\<And>f. f \<in> set fs \<Longrightarrow> preservesEv Q f) \<Longrightarrow> preservesEv Q (seq fs)"
  by (induction fs) (simp_all add: preservesEv_skip preservesEv_andThen)

lemma preservesEv_captureFrame:
  assumes "\<And>es i n. Q es \<Longrightarrow> Q (es @ [PreparePageForScreenshot i n])"
    and "\<And>es i n. Q es \<Longrightarrow> Q (es @ [CaptureFrame i n])"
  shows "preservesEv Q (captureFrame config env cap m)"
  unfolding captureFrame_def
  by (intro preservesEv_andThen preservesEv_onlyIf preservesEv_seq)
     (auto simp: preservesEv_def host_def logStep_def assms split: option.splits)


lemma flowWorld_continue: "flowWorld (continue r) = finalWorld r"
  by (cases r) (auto simp: continue_def)

lemma isl_continue: "isl (continue r) = isl r"
  by (cases r) (auto simp: continue_def)










section \<open>The order of execution\<close>



section \<open>Priming\<close>

lemma primingRounds_Suc:
  "primingRounds config bt (Suc n) =
     [Query False, GoToTimeAndAnimate (bt + frameDuration config)]
     @ primingRounds config (bt + frameDuration config) n"
proof -
  have "[1..<Suc (Suc n)] = 1 # map Suc [1..<Suc n]"
    by (simp add: upt_conv_Cons map_Suc_upt del: upt_Suc)
  then show ?thesis
    by (simp add: primingRounds_def comp_def algebra_simps del: upt_Suc)
qed

lemma primingLoop_found:
  assumes "\<forall>k. \<not> throws env k"
    and "\<forall>k < n. \<not> selectorFound env (queriesMade w + k)"
    and "selectorFound env (queriesMade w + n)"
  shows "primingLoop config env bt w =
     Some (Inr (bt + of_nat n * frameDuration config,
       w\<lparr>events := events w @ primingRounds config bt n @ [Query True]\<rparr>))"
  using assms(2,3)
proof (induction n arbitrary: bt w)
  case 0
  then show ?case
    using assms(1)
    by (subst primingLoop.simps)
       (simp add: host_def answer_def record_event_def primingRounds_def)
next
  case (Suc n)
  let ?w1 = "record_event (Query False) w"
  let ?w2 = "record_event (GoToTimeAndAnimate (bt + frameDuration config)) ?w1"
  have absent: "\<not> answer env w"
    using Suc.prems(1) [rule_format, of 0] by (simp add: answer_def)
  have step: "primingLoop config env bt w
      = primingLoop config env (bt + frameDuration config) ?w2"
    using assms(1) absent by (subst primingLoop.simps) (simp add: host_def)
  have q: "queriesMade ?w2 = Suc (queriesMade w)"
    by simp
  have "primingLoop config env (bt + frameDuration config) ?w2 =
     Some (Inr (bt + frameDuration config + of_nat n * frameDuration config,
       ?w2\<lparr>events := events ?w2 @ primingRounds config (bt + frameDuration config) n
          @ [Query True]\<rparr>))"
  proof (rule Suc.IH)
    show "\<forall>k<n. \<not> selectorFound env (queriesMade ?w2 + k)"
      using Suc.prems(1) by (simp add: q) (metis Suc_less_eq add_Suc_right)
    show "selectorFound env (queriesMade ?w2 + n)"
      using Suc.prems(2) by (simp add: q)
  qed
  then show ?case
    by (simp add: step primingRounds_Suc record_event_def algebra_simps)
qed

lemma primingLoop_returns_found:
  assumes ret: "primingLoop config env bt w = Some r"
  shows "(\<forall>k. \<not> throws env k) \<longrightarrow> (\<exists>k. selectorFound env (queriesMade w + k))"
proof (rule primingLoop.raw_induct
    [where P = "\<lambda>config env bt w r.
        (\<forall>k. \<not> throws env k) \<longrightarrow> (\<exists>k. selectorFound env (queriesMade w + k))",
     OF _ ret], goal_cases)
  case (1 loop config env bt w r)
  let ?w1 = "record_event (Query False) w"
  let ?w2 = "record_event (GoToTimeAndAnimate (bt + frameDuration config)) ?w1"
  show ?case
  proof
    assume nothrow: "\<forall>k. \<not> throws env k"
    show "\<exists>k. selectorFound env (queriesMade w + k)"
    proof (cases "answer env w")
      case True
      then have "selectorFound env (queriesMade w + 0)"
        by (simp add: answer_def)
      then show ?thesis by blast
    next
      case False
      with 1(2) nothrow have call: "loop config env (bt + frameDuration config) ?w2 = Some r"
        by (simp add: host_def)
      from 1(1) [OF call] nothrow obtain k where "selectorFound env (queriesMade ?w2 + k)"
        by blast
      then have "selectorFound env (queriesMade w + Suc k)"
        by simp
      then show ?thesis by blast
    qed
  qed
qed

lemma primingLoop_never:
  assumes "\<forall>k. \<not> throws env k" "\<forall>k. \<not> selectorFound env (queriesMade w + k)"
  shows "primingLoop config env bt w = None"
proof (cases "primingLoop config env bt w")
  case None
  then show ?thesis .
next
  case (Some r)
  from primingLoop_returns_found [OF Some] assms show ?thesis
    by blast
qed

lemma andThen_Inr: "andThen f g w = Inr w' \<longleftrightarrow> (\<exists>v. f w = Inr v \<and> g v = Inr w')"
  by (auto simp: andThen_def split: sum.splits)

lemma initialize_waits:
  assumes "initialize config env w0 = Inr w"
  shows "Wait (startWaitMs config) \<in> set (events w)"
  using assms
  by (auto simp: initialize_def andThen_Inr emit_def onlyIf_def skip_def host_def logStep_def
      split: if_splits)

lemma priming_found_at_once:
  assumes "truthyStr (captureWhileSelectorExists config)" "\<forall>k. \<not> throws env k"
    "selectorFound env (queriesMade w)"
  shows "priming config env w = Some (Inr (0, w\<lparr>events := events w @ [Query True]\<rparr>))"
  using assms by (simp add: priming_def host_def answer_def record_event_def)

lemma priming_found_later:
  assumes "truthyStr (captureWhileSelectorExists config)" "\<forall>k. \<not> throws env k"
    "\<forall>k \<le> n. \<not> selectorFound env (queriesMade w + k)"
    "selectorFound env (queriesMade w + Suc n)"
  shows "priming config env w =
     Some (Inr (of_nat n * frameDuration config,
       w\<lparr>events := events w @ [Query False] @ primingRounds config 0 n @ [Query True]\<rparr>))"
proof -
  let ?w1 = "record_event (Query False) w"
  have absent: "\<not> answer env w"
    using assms(3) [rule_format, of 0] by (simp add: answer_def)
  have start: "priming config env w = primingLoop config env 0 ?w1"
    using assms(1,2) absent by (simp add: priming_def host_def)
  have "primingLoop config env 0 ?w1 =
     Some (Inr (0 + of_nat n * frameDuration config,
       ?w1\<lparr>events := events ?w1 @ primingRounds config 0 n @ [Query True]\<rparr>))"
  proof (rule primingLoop_found [OF assms(2)])
    show "\<forall>k<n. \<not> selectorFound env (queriesMade ?w1 + k)"
    proof (intro allI impI)
      fix k assume "k < n"
      then have "Suc k \<le> n" by simp
      with assms(3) have "\<not> selectorFound env (queriesMade w + Suc k)" by blast
      then show "\<not> selectorFound env (queriesMade ?w1 + k)" by simp
    qed
    show "selectorFound env (queriesMade ?w1 + n)"
      using assms(4) by simp
  qed
  then show ?thesis
    by (simp add: start record_event_def)
qed

lemma priming_never:
  assumes "truthyStr (captureWhileSelectorExists config)" "\<forall>k. \<not> throws env k"
    "\<forall>k. \<not> selectorFound env (queriesMade w + k)"
  shows "priming config env w = None"
proof -
  let ?w1 = "record_event (Query False) w"
  have absent: "\<not> answer env w"
    using assms(3) [rule_format, of 0] by (simp add: answer_def)
  have start: "priming config env w = primingLoop config env 0 ?w1"
    using assms(1,2) absent by (simp add: priming_def host_def)
  have "\<forall>k. \<not> selectorFound env (queriesMade ?w1 + k)"
  proof
    fix k
    from assms(3) have "\<not> selectorFound env (queriesMade w + Suc k)" by blast
    then show "\<not> selectorFound env (queriesMade ?w1 + k)" by simp
  qed
  from primingLoop_never [OF assms(2) this] show ?thesis
    by (simp add: start)
qed

text \<open>
  Claim C4, as the code has it. The priming starts from a world in which the
  \<^verbatim>\<open>startDelay\<close> wait has been made. Without a selector it does nothing. With a selector
  and a page on which nothing throws: when the selector is found at the first check, no
  advance is issued; when it is not found at the first check nor at the next \<open>n\<close> checks and
  is found at the one after, the clock is advanced \<open>n\<close> times, to the multiples
  \<open>k * (1000 / fps)\<close> of the frame duration, and \<^verbatim>\<open>browserTime\<close> ends at \<open>n\<close> frame
  durations; when it is never found, the priming does not end.
\<close>

theorem priming_until_selector_appears:
  "(initialize config env w0 = Inr w \<longrightarrow> Wait (startWaitMs config) \<in> set (events w))
   \<and> (\<not> truthyStr (captureWhileSelectorExists config) \<longrightarrow>
        priming config env w = Some (Inr (0, w)))
   \<and> (truthyStr (captureWhileSelectorExists config) \<and> (\<forall>k. \<not> throws env k)
        \<and> selectorFound env (queriesMade w) \<longrightarrow>
        priming config env w = Some (Inr (0, w\<lparr>events := events w @ [Query True]\<rparr>)))
   \<and> (truthyStr (captureWhileSelectorExists config) \<and> (\<forall>k. \<not> throws env k)
        \<and> (\<forall>k \<le> n. \<not> selectorFound env (queriesMade w + k))
        \<and> selectorFound env (queriesMade w + Suc n) \<longrightarrow>
        priming config env w =
          Some (Inr (of_nat n * (1000 / resolvedFps config),
            w\<lparr>events := events w @ [Query False]
               @ concat (map (\<lambda>k. [Query False,
                    GoToTimeAndAnimate (of_nat k * (1000 / resolvedFps config))]) [1..<Suc n])
               @ [Query True]\<rparr>)))
   \<and> (truthyStr (captureWhileSelectorExists config) \<and> (\<forall>k. \<not> throws env k)
        \<and> (\<forall>k. \<not> selectorFound env (queriesMade w + k)) \<longrightarrow>
        priming config env w = None)"
proof (intro conjI impI)
  assume "initialize config env w0 = Inr w"
  then show "Wait (startWaitMs config) \<in> set (events w)"
    by (rule initialize_waits)
next
  assume "\<not> truthyStr (captureWhileSelectorExists config)"
  then show "priming config env w = Some (Inr (0, w))"
    by (rule priming_unconfigured)
next
  assume "truthyStr (captureWhileSelectorExists config) \<and> (\<forall>k. \<not> throws env k)
        \<and> selectorFound env (queriesMade w)"
  then show "priming config env w = Some (Inr (0, w\<lparr>events := events w @ [Query True]\<rparr>))"
    using priming_found_at_once by blast
next
  assume h: "truthyStr (captureWhileSelectorExists config) \<and> (\<forall>k. \<not> throws env k)
        \<and> (\<forall>k \<le> n. \<not> selectorFound env (queriesMade w + k))
        \<and> selectorFound env (queriesMade w + Suc n)"
  have "priming config env w =
     Some (Inr (of_nat n * frameDuration config,
       w\<lparr>events := events w @ [Query False] @ primingRounds config 0 n @ [Query True]\<rparr>))"
    using h by (intro priming_found_later) blast+
  then show "priming config env w =
          Some (Inr (of_nat n * (1000 / resolvedFps config),
            w\<lparr>events := events w @ [Query False]
               @ concat (map (\<lambda>k. [Query False,
                    GoToTimeAndAnimate (of_nat k * (1000 / resolvedFps config))]) [1..<Suc n])
               @ [Query True]\<rparr>))"
    by (simp add: primingRounds_def frameDuration_def del: upt_Suc)
next
  assume "truthyStr (captureWhileSelectorExists config) \<and> (\<forall>k. \<not> throws env k)
        \<and> (\<forall>k. \<not> selectorFound env (queriesMade w + k))"
  then show "priming config env w = None"
    using priming_never by blast
qed

theorem priming_until_selector_appears_witness:
  "initialize twoFramesConfig lateSelectorEnv initialWorld = Inr readyWorld
   \<and> Wait (startWaitMs twoFramesConfig) \<in> set (events readyWorld)
   \<and> truthyStr (captureWhileSelectorExists twoFramesConfig)
   \<and> \<not> truthyStr (captureWhileSelectorExists emptyConfig)
   \<and> priming emptyConfig calmEnv readyWorld = Some (Inr (0, readyWorld))
   \<and> priming twoFramesConfig calmEnv readyWorld
       = Some (Inr (0, readyWorld\<lparr>events := events readyWorld @ [Query True]\<rparr>))
   \<and> priming twoFramesConfig lateSelectorEnv readyWorld
       = Some (Inr (200, readyWorld\<lparr>events := events readyWorld @
           [Query False, Query False, GoToTimeAndAnimate 100, Query False,
            GoToTimeAndAnimate 200, Query True]\<rparr>))
   \<and> priming twoFramesConfig neverEnv readyWorld = None"
proof -
  have init: "initialize twoFramesConfig lateSelectorEnv initialWorld = Inr readyWorld"
    by code_simp
  have sel: "truthyStr (captureWhileSelectorExists twoFramesConfig)"
    "\<not> truthyStr (captureWhileSelectorExists emptyConfig)"
    by (simp_all add: twoFramesConfig_def emptyConfig_def truthyStr_def)
  have nothrow: "\<forall>k. \<not> throws calmEnv k" "\<forall>k. \<not> throws lateSelectorEnv k"
    "\<forall>k. \<not> throws neverEnv k"
    by (simp_all add: calmEnv_def lateSelectorEnv_def neverEnv_def)
  have q: "queriesMade readyWorld = 0"
    by (simp add: queriesMade_def readyWorld_def)
  have found: "selectorFound calmEnv (queriesMade readyWorld)"
    by (simp add: calmEnv_def)
  have late: "\<forall>k \<le> 2. \<not> selectorFound lateSelectorEnv (queriesMade readyWorld + k)"
    "selectorFound lateSelectorEnv (queriesMade readyWorld + Suc 2)"
    by (simp_all add: q lateSelectorEnv_def calmEnv_def)
  have never: "\<forall>k. \<not> selectorFound neverEnv (queriesMade readyWorld + k)"
    by (simp add: neverEnv_def calmEnv_def)
  have fps: "1000 / resolvedFps twoFramesConfig = 100"
    by (simp add: resolvedFps_def twoFramesConfig_def emptyConfig_def truthy_def num_def)
  have rounds: "concat (map (\<lambda>k. [Query False,
                    GoToTimeAndAnimate (of_nat k * (1000 / resolvedFps twoFramesConfig))])
                    [1..<Suc 2])
      = [Query False, GoToTimeAndAnimate 100, Query False, GoToTimeAndAnimate 200]"
    by (simp add: fps upt_rec)
  note T = priming_until_selector_appears
  have 1: "Wait (startWaitMs twoFramesConfig) \<in> set (events readyWorld)"
    using T [of twoFramesConfig lateSelectorEnv initialWorld readyWorld 0] init by blast
  have 2: "priming emptyConfig calmEnv readyWorld = Some (Inr (0, readyWorld))"
    using T [of emptyConfig calmEnv initialWorld readyWorld 0] sel(2) by blast
  have 3: "priming twoFramesConfig calmEnv readyWorld
       = Some (Inr (0, readyWorld\<lparr>events := events readyWorld @ [Query True]\<rparr>))"
    using T [of twoFramesConfig calmEnv initialWorld readyWorld 0] sel(1) nothrow(1) found
    by blast
  have 4: "priming twoFramesConfig lateSelectorEnv readyWorld
       = Some (Inr (of_nat 2 * (1000 / resolvedFps twoFramesConfig),
            readyWorld\<lparr>events := events readyWorld @ [Query False]
               @ concat (map (\<lambda>k. [Query False,
                    GoToTimeAndAnimate (of_nat k * (1000 / resolvedFps twoFramesConfig))])
                    [1..<Suc 2])
               @ [Query True]\<rparr>))"
    using T [of twoFramesConfig lateSelectorEnv initialWorld readyWorld 2] sel(1) nothrow(2) late
    by blast
  have 5: "priming twoFramesConfig neverEnv readyWorld = None"
    using T [of twoFramesConfig neverEnv initialWorld readyWorld 0] sel(1) nothrow(3) never
    by blast
  show ?thesis
    using init 1 sel 2 3 4 [unfolded rounds, unfolded fps] 5 by simp
qed

text \<open>
  Claim C4 as it is written has the test the wrong way round. On a page where the selector
  is present from the start, the priming issues no advance; on a page where it is absent
  at the first three checks, the priming advances the clock twice while it is absent and
  stops when it appears.
\<close>

theorem priming_counterexample:
  "selectorFound calmEnv 0
   \<and> priming twoFramesConfig calmEnv initialWorld
       = Some (Inr (0, \<lparr>events = [Query True], console = []\<rparr>))
   \<and> \<not> selectorFound lateSelectorEnv 0 \<and> \<not> selectorFound lateSelectorEnv 1
   \<and> \<not> selectorFound lateSelectorEnv 2 \<and> selectorFound lateSelectorEnv 3
   \<and> priming twoFramesConfig lateSelectorEnv initialWorld
       = Some (Inr (200,
           \<lparr>events = [Query False, Query False, GoToTimeAndAnimate 100, Query False,
              GoToTimeAndAnimate 200, Query True], console = []\<rparr>))"
  by code_simp

lemma record_event_twice:
  "record_event b (record_event a w) = w\<lparr>events := events w @ [a, b]\<rparr>"
  by (simp add: record_event_def)

lemma execMarker_capture_checked:
  assumes "mtype m = Capture" "truthyStr (captureWhileSelectorExists config)"
    "\<not> throws env (length (events w))" "\<not> throws env (Suc (length (events w)))"
  shows "execMarker config env cap m w =
     (if \<not> selectorFound env (queriesMade w)
      then Inr (Break (w\<lparr>events := events w @
              [GoToTimeAndAnimateForCapture (mtime m), Query False]\<rparr>))
      else continue (captureFrame config env cap m
             (w\<lparr>events := events w @
                [GoToTimeAndAnimateForCapture (mtime m), Query True]\<rparr>)))"
  using assms
  by (simp add: execMarker_def host_def answer_def record_event_twice)

lemma captureFrame_both_hooks:
  assumes "preparePageForScreenshot config" "hasCapture cap" "mdata m = Some i"
    "\<not> throws env (length (events w))" "\<not> throws env (Suc (length (events w)))"
  shows "\<not> isl (captureFrame config env cap m w)
     \<and> events (finalWorld (captureFrame config env cap m w)) =
          events w @ [PreparePageForScreenshot i (framesToCapture config),
                      CaptureFrame i (framesToCapture config)]"
  using assms
  by (simp add: captureFrame_def andThen_def onlyIf_def logStep_def host_def skip_def)

section \<open>The stop condition\<close>

text \<open>
  Claim C5. At a Capture marker, with a selector configured and a page on which the
  advance and the check do not throw: the clock is advanced to the marker's time, then the
  selector is checked; when it is not found the marker loop ends there, whatever markers
  are left; when it is found the frame is captured (the \<^verbatim>\<open>preparePageForScreenshot\<close> hook,
  then the capturer's \<^verbatim>\<open>capture\<close>) and the loop goes on with the markers left. In
  scenario C exactly the frames 1 to 5 are captured, the AnimateOnly marker at 550 and all
  later markers are not executed, the browser is closed and no error is logged.
\<close>

theorem stop_condition_before_capture:
  "(mtype m = Capture \<and> truthyStr (captureWhileSelectorExists config)
      \<and> \<not> throws env (length (events w)) \<and> \<not> throws env (Suc (length (events w)))
      \<and> \<not> selectorFound env (queriesMade w) \<longrightarrow>
      runMarkers config env cap (m # rest) w =
        Inr (w\<lparr>events := events w @
               [GoToTimeAndAnimateForCapture (mtime m), Query False]\<rparr>))
   \<and> (mtype m = Capture \<and> truthyStr (captureWhileSelectorExists config)
      \<and> \<not> throws env (length (events w)) \<and> \<not> throws env (Suc (length (events w)))
      \<and> selectorFound env (queriesMade w) \<longrightarrow>
      runMarkers config env cap (m # rest) w =
        (case captureFrame config env cap m
                (w\<lparr>events := events w @
                   [GoToTimeAndAnimateForCapture (mtime m), Query True]\<rparr>) of
           Inl e \<Rightarrow> Inl e
         | Inr w' \<Rightarrow> runMarkers config env cap rest w'))
   \<and> (preparePageForScreenshot config \<and> hasCapture cap \<and> mdata m = Some i
      \<and> \<not> throws env (length (events w)) \<and> \<not> throws env (Suc (length (events w)))
      \<longrightarrow>
      \<not> isl (captureFrame config env cap m w)
      \<and> events (finalWorld (captureFrame config env cap m w)) =
          events w @ [PreparePageForScreenshot i (framesToCapture config),
                      CaptureFrame i (framesToCapture config)])
   \<and> timesnap scenarioC scenarioCEnv =
       Some (Resolved,
         \<lparr>events =
            [GetBrowser, NewPage, InitCapturer Screenshot, OverwriteRandom,
             OverwriteTime, InitializePageUtils, InitializeMediaTimeHandler, Goto,
             Wait 0, GetBrowserFrames, Query True,
             GoToTimeAndAnimateForCapture 0, Query True, CaptureFrame 1 10,
             GoToTimeAndAnimate 50,
             GoToTimeAndAnimateForCapture 100, Query True, CaptureFrame 2 10,
             GoToTimeAndAnimate 150,
             GoToTimeAndAnimateForCapture 200, Query True, CaptureFrame 3 10,
             GoToTimeAndAnimate 250,
             GoToTimeAndAnimateForCapture 300, Query True, CaptureFrame 4 10,
             GoToTimeAndAnimate 350,
             GoToTimeAndAnimateForCapture 400, Query True, CaptureFrame 5 10,
             GoToTimeAndAnimate 450,
             GoToTimeAndAnimateForCapture 500, Query False,
             BrowserClose],
          console =
            [(StdOut, CaptureModeMsg Screenshot), (StdOut, GoingTo),
             (StdOut, PageLoaded), (StdOut, ElapsedCaptureTime)]\<rparr>)"
proof (intro conjI impI)
  assume h: "mtype m = Capture \<and> truthyStr (captureWhileSelectorExists config)
      \<and> \<not> throws env (length (events w)) \<and> \<not> throws env (Suc (length (events w)))
      \<and> \<not> selectorFound env (queriesMade w)"
  then have "execMarker config env cap m w =
      Inr (Break (w\<lparr>events := events w @
              [GoToTimeAndAnimateForCapture (mtime m), Query False]\<rparr>))"
    using execMarker_capture_checked [of m config env w cap] by simp
  then show "runMarkers config env cap (m # rest) w =
        Inr (w\<lparr>events := events w @
               [GoToTimeAndAnimateForCapture (mtime m), Query False]\<rparr>)"
    by simp
next
  assume h: "mtype m = Capture \<and> truthyStr (captureWhileSelectorExists config)
      \<and> \<not> throws env (length (events w)) \<and> \<not> throws env (Suc (length (events w)))
      \<and> selectorFound env (queriesMade w)"
  then have "execMarker config env cap m w =
      continue (captureFrame config env cap m
             (w\<lparr>events := events w @
                [GoToTimeAndAnimateForCapture (mtime m), Query True]\<rparr>))"
    using execMarker_capture_checked [of m config env w cap] by simp
  then show "runMarkers config env cap (m # rest) w =
        (case captureFrame config env cap m
                (w\<lparr>events := events w @
                   [GoToTimeAndAnimateForCapture (mtime m), Query True]\<rparr>) of
           Inl e \<Rightarrow> Inl e
         | Inr w' \<Rightarrow> runMarkers config env cap rest w')"
    by (simp add: continue_def split: sum.splits)
next
  assume h: "preparePageForScreenshot config \<and> hasCapture cap \<and> mdata m = Some i
      \<and> \<not> throws env (length (events w)) \<and> \<not> throws env (Suc (length (events w)))"
  then show "\<not> isl (captureFrame config env cap m w)"
    using captureFrame_both_hooks [of config cap m i env w] by simp
  from h show "events (finalWorld (captureFrame config env cap m w)) =
          events w @ [PreparePageForScreenshot i (framesToCapture config),
                      CaptureFrame i (framesToCapture config)]"
    using captureFrame_both_hooks [of config cap m i env w] by simp
next
  show "timesnap scenarioC scenarioCEnv =
       Some (Resolved,
         \<lparr>events =
            [GetBrowser, NewPage, InitCapturer Screenshot, OverwriteRandom,
             OverwriteTime, InitializePageUtils, InitializeMediaTimeHandler, Goto,
             Wait 0, GetBrowserFrames, Query True,
             GoToTimeAndAnimateForCapture 0, Query True, CaptureFrame 1 10,
             GoToTimeAndAnimate 50,
             GoToTimeAndAnimateForCapture 100, Query True, CaptureFrame 2 10,
             GoToTimeAndAnimate 150,
             GoToTimeAndAnimateForCapture 200, Query True, CaptureFrame 3 10,
             GoToTimeAndAnimate 250,
             GoToTimeAndAnimateForCapture 300, Query True, CaptureFrame 4 10,
             GoToTimeAndAnimate 350,
             GoToTimeAndAnimateForCapture 400, Query True, CaptureFrame 5 10,
             GoToTimeAndAnimate 450,
             GoToTimeAndAnimateForCapture 500, Query False,
             BrowserClose],
          console =
            [(StdOut, CaptureModeMsg Screenshot), (StdOut, GoingTo),
             (StdOut, PageLoaded), (StdOut, ElapsedCaptureTime)]\<rparr>)"
    by code_simp
qed

theorem stop_condition_before_capture_witness:
  "mtype \<lparr>mtime = 500, mtype = Capture, mdata = Some 6, mid = 5\<rparr> = Capture
   \<and> truthyStr (captureWhileSelectorExists scenarioC)
   \<and> \<not> throws neverEnv 0 \<and> \<not> throws neverEnv 1 \<and> \<not> selectorFound neverEnv 0
   \<and> runMarkers scenarioC neverEnv plainCapturer
        [\<lparr>mtime = 500, mtype = Capture, mdata = Some 6, mid = 5\<rparr>,
         \<lparr>mtime = 550, mtype = OnlyAnimate, mdata = None, mid = 15\<rparr>] initialWorld
       = Inr \<lparr>events = [GoToTimeAndAnimateForCapture 500, Query False], console = []\<rparr>
   \<and> \<not> throws calmEnv 0 \<and> \<not> throws calmEnv 1 \<and> selectorFound calmEnv 0
   \<and> runMarkers scenarioC calmEnv plainCapturer
        [\<lparr>mtime = 500, mtype = Capture, mdata = Some 6, mid = 5\<rparr>,
         \<lparr>mtime = 550, mtype = OnlyAnimate, mdata = None, mid = 15\<rparr>] initialWorld
       = Inr \<lparr>events = [GoToTimeAndAnimateForCapture 500, Query True, CaptureFrame 6 10,
               GoToTimeAndAnimate 550], console = []\<rparr>
   \<and> preparePageForScreenshot (scenarioC\<lparr>preparePageForScreenshot := True\<rparr>)
   \<and> hasCapture plainCapturer
   \<and> events (finalWorld (captureFrame (scenarioC\<lparr>preparePageForScreenshot := True\<rparr>)
         calmEnv plainCapturer \<lparr>mtime = 500, mtype = Capture, mdata = Some 6, mid = 5\<rparr>
         initialWorld))
       = [PreparePageForScreenshot 6 10, CaptureFrame 6 10]"
proof -
  let ?m = "\<lparr>mtime = 500, mtype = Capture, mdata = Some 6, mid = 5\<rparr>"
  let ?a = "\<lparr>mtime = 550, mtype = OnlyAnimate, mdata = None, mid = 15\<rparr>"
  let ?c = "scenarioC\<lparr>preparePageForScreenshot := True\<rparr>"
  have m: "mtype ?m = Capture" "mdata ?m = Some 6"
    by simp_all
  have sel: "truthyStr (captureWhileSelectorExists scenarioC)"
    by (simp add: scenarioC_def emptyConfig_def truthyStr_def)
  have never: "\<not> throws neverEnv (length (events initialWorld))"
    "\<not> throws neverEnv (Suc (length (events initialWorld)))"
    "\<not> selectorFound neverEnv (queriesMade initialWorld)"
    by (simp_all add: neverEnv_def calmEnv_def)
  have calm: "\<not> throws calmEnv (length (events initialWorld))"
    "\<not> throws calmEnv (Suc (length (events initialWorld)))"
    "selectorFound calmEnv (queriesMade initialWorld)"
    by (simp_all add: calmEnv_def)
  have hooks: "preparePageForScreenshot ?c" "hasCapture plainCapturer"
    by (simp_all add: plainCapturer_def)
  have e0: "events initialWorld = []" "length (events initialWorld) = 0"
    "queriesMade initialWorld = 0"
    by (simp_all add: initialWorld_def queriesMade_def)
  have n: "framesToCapture ?c = 10"
    by (simp add: framesToCapture_def scenarioC_def emptyConfig_def truthy_def num_def)
  have 1: "runMarkers scenarioC neverEnv plainCapturer [?m, ?a] initialWorld =
      Inr (initialWorld\<lparr>events := events initialWorld @
               [GoToTimeAndAnimateForCapture (mtime ?m), Query False]\<rparr>)"
    using stop_condition_before_capture
      [of ?m scenarioC neverEnv initialWorld plainCapturer "[?a]" 6] m sel never
    by blast
  have 2: "runMarkers scenarioC calmEnv plainCapturer [?m, ?a] initialWorld =
        (case captureFrame scenarioC calmEnv plainCapturer ?m
                (initialWorld\<lparr>events := events initialWorld @
                   [GoToTimeAndAnimateForCapture (mtime ?m), Query True]\<rparr>) of
           Inl e \<Rightarrow> Inl e
         | Inr w' \<Rightarrow> runMarkers scenarioC calmEnv plainCapturer [?a] w')"
    using stop_condition_before_capture
      [of ?m scenarioC calmEnv initialWorld plainCapturer "[?a]" 6] m sel calm
    by blast
  have ev2: "(case captureFrame scenarioC calmEnv plainCapturer ?m
                (initialWorld\<lparr>events := events initialWorld @
                   [GoToTimeAndAnimateForCapture (mtime ?m), Query True]\<rparr>) of
           Inl e \<Rightarrow> Inl e
         | Inr w' \<Rightarrow> runMarkers scenarioC calmEnv plainCapturer [?a] w')
      = Inr \<lparr>events = [GoToTimeAndAnimateForCapture 500, Query True, CaptureFrame 6 10,
               GoToTimeAndAnimate 550], console = []\<rparr>"
    by code_simp
  have 3: "events (finalWorld (captureFrame ?c calmEnv plainCapturer ?m initialWorld)) =
          events initialWorld @ [PreparePageForScreenshot 6 (framesToCapture ?c),
                      CaptureFrame 6 (framesToCapture ?c)]"
    using stop_condition_before_capture
      [of ?m ?c calmEnv initialWorld plainCapturer "[?a]" 6] m hooks calm(1,2)
    by blast
  have s0: "\<not> selectorFound neverEnv 0" "selectorFound calmEnv 0"
    "\<not> throws neverEnv 0" "\<not> throws neverEnv 1" "\<not> throws calmEnv 0" "\<not> throws calmEnv 1"
    by (simp_all add: neverEnv_def calmEnv_def)
  show ?thesis
    using m(1) sel s0 hooks 1 2 [unfolded ev2] 3
    by (simp add: e0 n initialWorld_def)
qed

section \<open>Errors\<close>

lemma initialize_no_close:
  "preservesEv (\<lambda>es. BrowserClose \<notin> set es) (initialize config env)"
  unfolding initialize_def
  by (rule preservesEv_seq)
     (auto intro!: preservesEv_host preservesEv_emit preservesEv_logStep preservesEv_onlyIf
        preservesEv_seq preservesEv_andThen preservesEv_skip)

lemma primingLoop_no_close:
  assumes ret: "primingLoop config env bt w = Some r"
  shows "BrowserClose \<notin> set (events w) \<longrightarrow> BrowserClose \<notin> set (events (primedWorld r))"
proof (rule primingLoop.raw_induct
    [where P = "\<lambda>config env bt w r.
        BrowserClose \<notin> set (events w) \<longrightarrow> BrowserClose \<notin> set (events (primedWorld r))",
     OF _ ret], goal_cases)
  case (1 loop config env bt w r)
  show ?case
  proof
    assume w: "BrowserClose \<notin> set (events w)"
    show "BrowserClose \<notin> set (events (primedWorld r))"
    proof (cases "throws env (length (events w))")
      case True
      with 1(2) w show ?thesis by (auto simp: host_def)
    next
      case q: False
      let ?w1 = "record_event (Query (answer env w)) w"
      show ?thesis
      proof (cases "answer env w")
        case True
        with 1(2) q w show ?thesis by (auto simp: host_def)
      next
        case False
        show ?thesis
        proof (cases "throws env (length (events ?w1))")
          case True
          with 1(2) q False w show ?thesis by (auto simp: host_def)
        next
          case adv: False
          let ?w2 = "record_event (GoToTimeAndAnimate (bt + frameDuration config)) ?w1"
          from 1(2) q False adv have call: "loop config env (bt + frameDuration config) ?w2 = Some r"
            by (simp add: host_def)
          from 1(1) [OF call] w show ?thesis by simp
        qed
      qed
    qed
  qed
qed

lemma priming_no_close:
  assumes "priming config env w = Some r" "BrowserClose \<notin> set (events w)"
  shows "BrowserClose \<notin> set (events (primedWorld r))"
proof (cases "truthyStr (captureWhileSelectorExists config)")
  case False
  with assms show ?thesis by (auto simp: priming_def)
next
  case sel: True
  show ?thesis
  proof (cases "throws env (length (events w))")
    case True
    with assms sel show ?thesis by (auto simp: priming_def host_def)
  next
    case q: False
    show ?thesis
    proof (cases "answer env w")
      case True
      with assms sel q show ?thesis by (auto simp: priming_def host_def)
    next
      case False
      with assms(1) sel q
      have "primingLoop config env 0 (record_event (Query (answer env w)) w) = Some r"
        by (simp add: priming_def host_def)
      from primingLoop_no_close [OF this] assms(2) show ?thesis by simp
    qed
  qed
qed

lemma execMarker_no_close:
  assumes "BrowserClose \<notin> set (events w)"
  shows "BrowserClose \<notin> set (events (flowWorld (execMarker config env cap m w)))"
proof -
  have cf: "BrowserClose \<notin> set (events v) \<Longrightarrow>
      BrowserClose \<notin> set (events (finalWorld (captureFrame config env cap m v)))" for v
    using preservesEv_captureFrame [of "\<lambda>es. BrowserClose \<notin> set es" config env cap m]
    by (simp add: preservesEv_def)
  show ?thesis
    using assms
    by (cases "mtype m")
       (auto simp: execMarker_def host_def flowWorld_continue intro!: cf)
qed

lemma runMarkers_no_close:
  "BrowserClose \<notin> set (events w) \<Longrightarrow>
     BrowserClose \<notin> set (events (finalWorld (runMarkers config env cap ms w)))"
proof (induction ms arbitrary: w)
  case Nil
  then show ?case by simp
next
  case (Cons m rest)
  note step = execMarker_no_close [OF Cons.prems, of config env cap m]
  show ?case
  proof (cases "execMarker config env cap m w")
    case (Inl p)
    with step show ?thesis by (cases p) simp
  next
    case (Inr fl)
    with step Cons.IH show ?thesis by (cases fl) simp_all
  qed
qed

lemma finish_throws_no_close:
  assumes "finish config env cap w = Inl (e, w')" "BrowserClose \<notin> set (events w)"
  shows "BrowserClose \<notin> set (events w')"
  using assms
  by (auto simp: finish_def andThen_def onlyIf_def skip_def host_def logStep_def
      split: if_splits sum.splits)

lemma finish_returns_closed:
  assumes "finish config env cap w = Inr w'"
  shows "events w' \<noteq> [] \<and> last (events w') = BrowserClose"
  using assms
  by (auto simp: finish_def andThen_def onlyIf_def skip_def host_def logStep_def
      split: if_splits sum.splits)

lemma capturePhase_throws_no_close:
  assumes "capturePhase config env bt w = Inl (e, w')" "BrowserClose \<notin> set (events w)"
  shows "BrowserClose \<notin> set (events w')"
proof (cases "runMarkers config env (capturerOf env (captureModeOf config)) (timeline config bt) w")
  case (Inl p)
  with assms(1) have "p = (e, w')"
    by (simp add: capturePhase_def andThen_def)
  with Inl runMarkers_no_close [OF assms(2), of config env
      "capturerOf env (captureModeOf config)" "timeline config bt"]
  show ?thesis by simp
next
  case (Inr v)
  with runMarkers_no_close [OF assms(2), of config env
      "capturerOf env (captureModeOf config)" "timeline config bt"]
  have v: "BrowserClose \<notin> set (events v)" by simp
  from Inr assms(1) have "finish config env (capturerOf env (captureModeOf config)) v = Inl (e, w')"
    by (simp add: capturePhase_def andThen_def)
  from finish_throws_no_close [OF this v] show ?thesis .
qed

lemma capturePhase_returns_closed:
  assumes "capturePhase config env bt w = Inr w'"
  shows "events w' \<noteq> [] \<and> last (events w') = BrowserClose"
  using assms finish_returns_closed
  by (auto simp: capturePhase_def andThen_def split: sum.splits)

lemma tryBody_throws_no_close:
  assumes "tryBody config env initialWorld = Some (Inl (e, w'))"
  shows "BrowserClose \<notin> set (events w')"
proof (cases "initialize config env initialWorld")
  case (Inl p)
  with assms have p: "p = (e, w')" by (simp add: tryBody_def)
  have "BrowserClose \<notin> set (events (finalWorld (initialize config env initialWorld)))"
    using initialize_no_close [of config env] by (simp add: preservesEv_def initialWorld_def)
  with Inl p show ?thesis by simp
next
  case (Inr w1)
  have "BrowserClose \<notin> set (events (finalWorld (initialize config env initialWorld)))"
    using initialize_no_close [of config env] by (simp add: preservesEv_def initialWorld_def)
  with Inr have w1: "BrowserClose \<notin> set (events w1)" by simp
  show ?thesis
  proof (cases "priming config env w1")
    case None
    with Inr assms show ?thesis by (simp add: tryBody_def)
  next
    case (Some r)
    note pr = priming_no_close [OF Some w1]
    show ?thesis
    proof (cases r)
      case (Inl p)
      with Inr Some assms have "p = (e, w')" by (simp add: tryBody_def)
      with Inl pr show ?thesis by simp
    next
      case (Inr q)
      obtain bt w2 where q: "q = (bt, w2)" by (cases q)
      with Inr pr have w2: "BrowserClose \<notin> set (events w2)" by simp
      from \<open>initialize config env initialWorld = Inr w1\<close> Some Inr q assms
      have "capturePhase config env bt w2 = Inl (e, w')"
        by (simp add: tryBody_def)
      from capturePhase_throws_no_close [OF this w2] show ?thesis .
    qed
  qed
qed

lemma tryBody_returns_closed:
  assumes "tryBody config env initialWorld = Some (Inr w')"
  shows "events w' \<noteq> [] \<and> last (events w') = BrowserClose"
  using assms capturePhase_returns_closed
  by (auto simp: tryBody_def split: sum.splits option.splits)

text \<open>
  What the \<^verbatim>\<open>catch\<close> block does. A host call that throws leaves the world as it was and
  hands the error on. When the body of the \<^verbatim>\<open>try\<close> block throws, the run ends with the
  world of the throw, unchanged but for the error passed to \<^verbatim>\<open>log\<close> (printed last on the
  configured channel unless \<^verbatim>\<open>quiet\<close> is set): every event recorded before the throw is
  kept, and the browser has not been closed. When the body returns, closing the browser was
  its last call.
\<close>

lemma thrown_error_is_logged:
  "(timesnap config env = Some (s, w) \<longrightarrow> s = Resolved)
   \<and> (throws env (length (events v)) \<longrightarrow> host env ev v = Inl (HostError ev, v))
   \<and> (tryBody config env initialWorld = Some (Inl (err, w')) \<longrightarrow>
        timesnap config env = Some (Resolved, log_msg config (ErrorMsg err) w')
        \<and> events (log_msg config (ErrorMsg err) w') = events w'
        \<and> console (log_msg config (ErrorMsg err) w') =
            (if quiet config then console w'
             else console w' @ [(if logToStdErr config then StdErr else StdOut, ErrorMsg err)])
        \<and> BrowserClose \<notin> set (events w'))
   \<and> (tryBody config env initialWorld = Some (Inr w') \<longrightarrow>
        timesnap config env = Some (Resolved, w')
        \<and> events w' \<noteq> [] \<and> last (events w') = BrowserClose)"
proof (intro conjI impI)
  assume "timesnap config env = Some (s, w)"
  then show "s = Resolved"
    by (auto simp: timesnap_def split: option.splits sum.splits)
next
  assume "throws env (length (events v))"
  then show "host env ev v = Inl (HostError ev, v)"
    by (rule host_throws)
next
  assume t: "tryBody config env initialWorld = Some (Inl (err, w'))"
  then show "timesnap config env = Some (Resolved, log_msg config (ErrorMsg err) w')"
    by (simp add: timesnap_def)
  show "events (log_msg config (ErrorMsg err) w') = events w'"
    by simp
  show "console (log_msg config (ErrorMsg err) w') =
            (if quiet config then console w'
             else console w' @ [(if logToStdErr config then StdErr else StdOut, ErrorMsg err)])"
    by (simp add: log_msg_def)
  from t show "BrowserClose \<notin> set (events w')"
    by (rule tryBody_throws_no_close)
next
  assume t: "tryBody config env initialWorld = Some (Inr w')"
  then show "timesnap config env = Some (Resolved, w')"
    by (simp add: timesnap_def)
  from t show "events w' \<noteq> []" "last (events w') = BrowserClose"
    using tryBody_returns_closed by blast+
qed

text \<open>
  Claim C9 does not hold of the code. A run in which nothing throws ends with
  \<^verbatim>\<open>browser.close()\<close> (line 294); the \<^verbatim>\<open>catch\<close> block (lines 295 to 297) only logs. On a
  page whose navigation throws, the browser has been acquired and a page opened, the error
  is logged, the promise resolves, and the browser is never closed; the same when the
  capture of the second frame throws, where the first frame stays captured.
\<close>

theorem browser_left_open_after_throw:
  "timesnap scenarioA gotoThrowsEnv =
     Some (Resolved,
       \<lparr>events =
          [GetBrowser, NewPage, InitCapturer Screenshot, OverwriteRandom,
           OverwriteTime, InitializePageUtils, InitializeMediaTimeHandler],
        console =
          [(StdOut, CaptureModeMsg Screenshot), (StdOut, GoingTo),
           (StdOut, ErrorMsg (HostError Goto))]\<rparr>)
   \<and> timesnap scenarioA captureThrowsEnv =
     Some (Resolved,
       \<lparr>events =
          [GetBrowser, NewPage, InitCapturer Screenshot, OverwriteRandom,
           OverwriteTime, InitializePageUtils, InitializeMediaTimeHandler,
           Goto, Wait 0, GetBrowserFrames, GoToTimeAndAnimateForCapture 0,
           CaptureFrame 1 3, GoToTimeAndAnimateForCapture 100],
        console =
          [(StdOut, CaptureModeMsg Screenshot), (StdOut, GoingTo),
           (StdOut, PageLoaded), (StdOut, ErrorMsg (HostError (CaptureFrame 2 3)))]\<rparr>)
   \<and> timesnap scenarioA calmEnv =
     Some (Resolved,
       \<lparr>events =
          [GetBrowser, NewPage, InitCapturer Screenshot, OverwriteRandom,
           OverwriteTime, InitializePageUtils, InitializeMediaTimeHandler,
           Goto, Wait 0, GetBrowserFrames, GoToTimeAndAnimateForCapture 0,
           CaptureFrame 1 3, GoToTimeAndAnimateForCapture 100, CaptureFrame 2 3,
           GoToTimeAndAnimateForCapture 200, CaptureFrame 3 3, BrowserClose],
        console =
          [(StdOut, CaptureModeMsg Screenshot), (StdOut, GoingTo),
           (StdOut, PageLoaded), (StdOut, ElapsedCaptureTime)]\<rparr>)"
  by code_simp

section \<open>Monotonicity of the clock advances\<close>

text \<open>The marker loop by itself goes through times that never decrease.\<close>

lemma timeline_times_sorted: "sorted (map mtime (timeline config bt))"
proof -
  have "sorted_wrt markerBefore (timeline config bt)"
    unfolding timeline_def by (rule sorted_sortMarkers [OF distinct_mid_buildMarkers])
  then have "sorted_wrt (\<lambda>a b. mtime a \<le> mtime b) (timeline config bt)"
    by (rule sorted_wrt_mono_rel [rotated]) (auto simp: markerBefore_def)
  then show ?thesis
    by (simp add: sorted_map)
qed

text \<open>
  Claim C1 does not hold of the code. The Capture markers are offset by the virtual time
  \<^verbatim>\<open>browserTime\<close> that the priming loop has reached (line 210), the AnimateOnly markers are
  not (lines 214, 223 and 238). On a page where the selector appears at the fourth check,
  the priming advances the clock to 100 and 200, and the marker loop then goes back to 20
  before it goes to 1200 and 1300.
\<close>

theorem clock_regression_after_priming:
  "map_option (\<lambda>r. advanceTargets (events (snd r)))
      (timesnap delayedTwoFramesConfig lateSelectorEnv)
     = Some [100, 200, 20, 1200, 1300]
   \<and> \<not> sorted [100, 200, 20, 1200, 1300 :: rat]"
  by code_simp

end
